theory Spec2Isabelle
  imports Main "HOL-Library.Sublist"
begin

section \<open>Go string primitives\<close>

text \<open>
  A Go string is a sequence of bytes, modelled as \<^typ>\<open>string\<close>. The three functions of
  package \<open>strings\<close> that session classification calls work on bytes and are written out.
  \<open>Split\<close> is only ever called with the one-byte separator \<open>"-"\<close>, so the separator is a
  single character here; like Go's, it returns one more part than there are separators
  (and one empty part for the empty string).
\<close>

definition HasPrefix :: "string \<Rightarrow> string \<Rightarrow> bool" where
  "HasPrefix s pre = (take (length pre) s = pre)"

fun Contains :: "string \<Rightarrow> string \<Rightarrow> bool" where
  "Contains [] substr = (substr = [])"
| "Contains (c # cs) substr = (HasPrefix (c # cs) substr \<or> Contains cs substr)"

fun Split :: "string \<Rightarrow> char \<Rightarrow> string list" where
  "Split [] sep = [[]]"
| "Split (c # cs) sep =
     (if c = sep then [] # Split cs sep
      else (c # hd (Split cs sep)) # tl (Split cs sep))"

section \<open>Configuration\<close>

text \<open>
  The command-line flags of \<open>gt shutdown\<close> are package-level variables in the source; they
  are passed explicitly here. \<open>shutdownWait\<close> is a Go \<open>int\<close>; the countdown only ever
  subtracts 5 from a positive value, so no operation on it can wrap and it is an \<^typ>\<open>int\<close>.
\<close>

record flags =
  shutdownGraceful :: bool
  shutdownWait :: int
  shutdownAll :: bool
  shutdownYes :: bool
  shutdownPolecatsOnly :: bool
  shutdownNuclear :: bool

text \<open>
  What \<open>start.go\<close> uses but does not declare is a parameter: the two reserved session names
  (constants declared in other files of package \<open>cmd\<close>), and the two Unicode-aware library
  functions \<open>strings.ToLower\<close> and \<open>strings.TrimSpace\<close> that normalise the operator's
  answer to the confirmation prompt.
\<close>

record params =
  MayorSessionName :: string
  DeaconSessionName :: string
  ToLower :: "string \<Rightarrow> string"
  TrimSpace :: "string \<Rightarrow> string"

section \<open>Session classification\<close>

definition isCrew :: "string \<Rightarrow> bool" where
  "isCrew sess = Contains sess ''-crew-''"

definition isPolecat :: "params \<Rightarrow> string \<Rightarrow> bool" where
  "isPolecat c sess =
     (if \<not> isCrew sess \<and> sess \<noteq> MayorSessionName c \<and> sess \<noteq> DeaconSessionName c then
        (let parts = Split sess (CHR ''-'') in
         if length parts \<ge> 3 then
           (let role = parts ! 2 in
            if role \<noteq> ''witness'' \<and> role \<noteq> ''refinery'' \<and> role \<noteq> ''crew'' then True
            else False)
         else False)
      else False)"

text \<open>The loop of \<open>categorizeSessions\<close>, with the two result slices as accumulators.\<close>

fun categorize_loop ::
  "params \<Rightarrow> flags \<Rightarrow> string list \<Rightarrow> string list \<times> string list \<Rightarrow> string list \<times> string list"
where
  "categorize_loop c f [] acc = acc"
| "categorize_loop c f (sess # rest) (toStop, preserved) =
     (if \<not> HasPrefix sess ''gt-'' then categorize_loop c f rest (toStop, preserved)
      else if shutdownPolecatsOnly f then
        (if isPolecat c sess then categorize_loop c f rest (toStop @ [sess], preserved)
         else categorize_loop c f rest (toStop, preserved @ [sess]))
      else if shutdownAll f then categorize_loop c f rest (toStop @ [sess], preserved)
      else
        (if isCrew sess then categorize_loop c f rest (toStop, preserved @ [sess])
         else categorize_loop c f rest (toStop @ [sess], preserved)))"

definition categorizeSessions :: "params \<Rightarrow> flags \<Rightarrow> string list \<Rightarrow> string list \<times> string list" where
  "categorizeSessions c f sessions = categorize_loop c f sessions ([], [])"

section \<open>The world outside the process\<close>

text \<open>
  The session multiplexer, the workspace lookup, the operator's terminal and the polecat
  working copies are external. Their answers are fields of a \<open>world\<close>; the calls the
  commands make on them, the lines they print and the time they sleep are recorded, in
  order, as a list of events.
\<close>

record status =
  Clean :: bool
  Summary :: string

text \<open>
  One entry of \<open>polecatMgr.List()\<close>: the polecat's fields, and what the version-control
  layer answers for it: \<open>CheckUncommittedWork\<close> (an error, or a status with its \<open>Clean()\<close>
  and \<open>String()\<close>), \<open>RemoveWithOptions\<close> as a function of its \<open>force\<close> and \<open>nuclear\<close>
  arguments, and \<open>DeleteBranch\<close> on the Mayor's clone.
\<close>

record polecat =
  Name :: string
  ClonePath :: string
  CheckUncommittedWork :: "string + status"
  RemoveResult :: "bool \<Rightarrow> bool \<Rightarrow> string option"
  DeleteBranchResult :: "string option"

record rig =
  RigName :: string
  RigPath :: string
  ListPolecats :: "string + polecat list"

record world =
  live :: "string list"
  list_sessions_err :: "string option"
  kill_errs :: "string list"
  start_mayor_err :: "string option"
  start_deacon_err :: "string option"
  workspace_root :: "string option"
  stdin_line :: string
  load_rigs_config_err :: "string option"
  discover_rigs :: "string + rig list"

text \<open>\<open>filepath.Join\<close> is kept unevaluated: the root and the elements joined to it.\<close>

datatype path = Join string "string list"

datatype msg =
    StartingGasTown string | MayorAlreadyRunning | StartingMayor | MayorStarted
  | DeaconAlreadyRunning | StartingDeacon | DeaconStarted | GasTownIsRunning
  | WasNotRunning | SessionsToStop "string list" | SessionsPreserved "string list"
  | ProceedPrompt | ShutdownCancelled
  | GracefulHeader int | Phase1 nat | Interrupting string | Phase2 | Phase3 int | CtrlCHint
  | Remaining int | Phase4 | Phase5 | GracefulComplete nat
  | ShuttingDown | CleaningUp | ShutdownComplete nat
  | Stopped string
  | CouldNotLoadRigs string | CouldNotDiscoverRigs string
  | CouldNotCheck string string | NuclearRemoving string string string
  | CleanupFailed string string string | CleanedUp string string
  | UncommittedReport "string list" | Tally nat nat | NoPolecats

datatype event =
    Print msg
  | Call_SendKeysRaw string string
  | Call_SendKeys string string
  | Call_Sleep int
  | Call_KillSession string
  | Call_startMayorSession
  | Call_startDeaconSession
  | Call_ReadString
  | Call_RemoveWithOptions string string bool bool
  | Call_DeleteBranch path string bool

text \<open>Durations are nanoseconds, as \<open>time.Duration\<close> is.\<close>

definition Millisecond :: int where "Millisecond = 1000000"
definition Second :: int where "Second = 1000000000"

subsection \<open>The multiplexer\<close>

definition HasSession :: "world \<Rightarrow> string \<Rightarrow> bool" where
  "HasSession w name = (name \<in> set (live w))"

definition ListSessions :: "world \<Rightarrow> string + string list" where
  "ListSessions w = (case list_sessions_err w of Some e \<Rightarrow> Inl e | None \<Rightarrow> Inr (live w))"

text \<open>
  \<open>KillSession\<close> fails on a session that is not live, and on the sessions the world lists
  in \<open>kill_errs\<close> (a session that ended by itself in the meantime, a multiplexer failure).
\<close>

definition KillSession :: "world \<Rightarrow> string \<Rightarrow> bool \<times> world" where
  "KillSession w name =
     (if name \<in> set (live w) \<and> name \<notin> set (kill_errs w)
      then (True, w\<lparr>live := removeAll name (live w)\<rparr>)
      else (False, w))"

text \<open>
  Modelled from the spec: \<open>startMayorSession\<close> and \<open>startDeaconSession\<close> are declared in
  files of the package that are not among the sources. Each is taken to start the session
  of its singleton (the name (\<open>MayorSessionName\<close>, \<open>DeaconSessionName\<close>) becomes live) or
  to fail and leave the sessions as they were.
\<close>

definition startMayorSession :: "params \<Rightarrow> world \<Rightarrow> string option \<times> world" where
  "startMayorSession c w =
     (case start_mayor_err w of
        Some e \<Rightarrow> (Some e, w)
      | None \<Rightarrow> (None, w\<lparr>live := live w @ [MayorSessionName c]\<rparr>))"

definition startDeaconSession :: "params \<Rightarrow> world \<Rightarrow> string option \<times> world" where
  "startDeaconSession c w =
     (case start_deacon_err w of
        Some e \<Rightarrow> (Some e, w)
      | None \<Rightarrow> (None, w\<lparr>live := live w @ [DeaconSessionName c]\<rparr>))"

section \<open>Killing sessions in order\<close>

fun inList :: "string list \<Rightarrow> string \<Rightarrow> bool" where
  "inList [] sess = False"
| "inList (s # ss) sess = (if s = sess then True else inList ss sess)"

text \<open>
  One \<open>if err := t.KillSession(sess); err == nil { print; stopped++ }\<close>: the new world,
  the increment of \<open>stopped\<close> and the events.
\<close>

definition kill_one :: "world \<Rightarrow> string \<Rightarrow> world \<times> nat \<times> event list" where
  "kill_one w sess =
     (case KillSession w sess of
        (True, w') \<Rightarrow> (w', 1, [Call_KillSession sess, Print (Stopped sess)])
      | (False, w') \<Rightarrow> (w', 0, [Call_KillSession sess]))"

fun kill_others :: "params \<Rightarrow> world \<Rightarrow> string list \<Rightarrow> world \<times> nat \<times> event list" where
  "kill_others c w [] = (w, 0, [])"
| "kill_others c w (sess # rest) =
     (if sess = DeaconSessionName c \<or> sess = MayorSessionName c then kill_others c w rest
      else
        (case kill_one w sess of (w1, n1, e1) \<Rightarrow>
         (case kill_others c w1 rest of (w2, n2, e2) \<Rightarrow> (w2, n1 + n2, e1 @ e2))))"

definition killSessionsInOrder :: "params \<Rightarrow> world \<Rightarrow> string list \<Rightarrow> world \<times> nat \<times> event list" where
  "killSessionsInOrder c w sessions =
     (case (if inList sessions (DeaconSessionName c) then kill_one w (DeaconSessionName c)
            else (w, 0, [])) of (w1, n1, e1) \<Rightarrow>
      (case kill_others c w1 sessions of (w2, n2, e2) \<Rightarrow>
       (case (if inList sessions (MayorSessionName c) then kill_one w2 (MayorSessionName c)
              else (w2, 0, [])) of (w3, n3, e3) \<Rightarrow>
        (w3, n1 + n2 + n3, e1 @ e2 @ e3))))"

section \<open>Reclaiming polecats\<close>

record cleanup_state =
  totalCleaned :: nat
  totalSkipped :: nat
  uncommittedPolecats :: "string list"

text \<open>
  The tail of the inner loop's body, from \<open>RemoveWithOptions\<close> on. The error of
  \<open>DeleteBranch\<close> is assigned to \<open>_\<close>.
\<close>

definition remove_polecat ::
  "flags \<Rightarrow> rig \<Rightarrow> polecat \<Rightarrow> cleanup_state \<Rightarrow> cleanup_state \<times> event list"
where
  "remove_polecat f r p st =
     (case RemoveResult p True (shutdownNuclear f) of
        Some err \<Rightarrow>
          (st\<lparr>totalSkipped := totalSkipped st + 1\<rparr>,
           [Call_RemoveWithOptions (RigName r) (Name p) True (shutdownNuclear f),
            Print (CleanupFailed (RigName r) (Name p) err)])
      | None \<Rightarrow>
          (st\<lparr>totalCleaned := totalCleaned st + 1\<rparr>,
           [Call_RemoveWithOptions (RigName r) (Name p) True (shutdownNuclear f),
            Call_DeleteBranch (Join (RigPath r) [''mayor'', ''rig'']) (''polecat/'' @ Name p) True,
            Print (CleanedUp (RigName r) (Name p))]))"

text \<open>The body of the inner loop, for one polecat \<open>p\<close> of rig \<open>r\<close>.\<close>

definition cleanup_polecat ::
  "flags \<Rightarrow> rig \<Rightarrow> polecat \<Rightarrow> cleanup_state \<Rightarrow> cleanup_state \<times> event list"
where
  "cleanup_polecat f r p st =
     (case CheckUncommittedWork p of
        Inl err \<Rightarrow>
          (if \<not> shutdownNuclear f then
             (st\<lparr>totalSkipped := totalSkipped st + 1\<rparr>,
              [Print (CouldNotCheck (RigName r) (Name p))])
           else remove_polecat f r p st)
      | Inr status \<Rightarrow>
          (if \<not> Clean status then
             (if \<not> shutdownNuclear f then
                (st\<lparr>uncommittedPolecats :=
                      uncommittedPolecats st @
                        [RigName r @ ''/'' @ Name p @ '' ('' @ Summary status @ '')''],
                    totalSkipped := totalSkipped st + 1\<rparr>,
                 [])
              else
                (case remove_polecat f r p st of (st', evs) \<Rightarrow>
                   (st', Print (NuclearRemoving (RigName r) (Name p) (Summary status)) # evs)))
           else remove_polecat f r p st))"

fun cleanup_polecats ::
  "flags \<Rightarrow> rig \<Rightarrow> polecat list \<Rightarrow> cleanup_state \<Rightarrow> cleanup_state \<times> event list"
where
  "cleanup_polecats f r [] st = (st, [])"
| "cleanup_polecats f r (p # ps) st =
     (case cleanup_polecat f r p st of (st1, e1) \<Rightarrow>
      (case cleanup_polecats f r ps st1 of (st2, e2) \<Rightarrow> (st2, e1 @ e2)))"

fun cleanup_rigs :: "flags \<Rightarrow> rig list \<Rightarrow> cleanup_state \<Rightarrow> cleanup_state \<times> event list" where
  "cleanup_rigs f [] st = (st, [])"
| "cleanup_rigs f (r # rs) st =
     (case ListPolecats r of
        Inl err \<Rightarrow> cleanup_rigs f rs st
      | Inr polecats \<Rightarrow>
          (case cleanup_polecats f r polecats st of (st1, e1) \<Rightarrow>
           (case cleanup_rigs f rs st1 of (st2, e2) \<Rightarrow> (st2, e1 @ e2))))"

definition cleanup_summary :: "cleanup_state \<Rightarrow> event list" where
  "cleanup_summary st =
     (if length (uncommittedPolecats st) > 0 then [Print (UncommittedReport (uncommittedPolecats st))]
      else []) @
     (if totalCleaned st > 0 \<or> totalSkipped st > 0
      then [Print (Tally (totalCleaned st) (totalSkipped st))]
      else [Print NoPolecats])"

definition cleanupPolecats :: "flags \<Rightarrow> world \<Rightarrow> event list" where
  "cleanupPolecats f w =
     (case load_rigs_config_err w of
        Some err \<Rightarrow> [Print (CouldNotLoadRigs err)]
      | None \<Rightarrow>
          (case discover_rigs w of
             Inl err \<Rightarrow> [Print (CouldNotDiscoverRigs err)]
           | Inr rigs \<Rightarrow>
               (case cleanup_rigs f rigs
                       \<lparr>totalCleaned = 0, totalSkipped = 0, uncommittedPolecats = []\<rparr> of
                  (st, evs) \<Rightarrow> evs @ cleanup_summary st)))"

section \<open>Shutdown\<close>

definition shutdownMsg :: string where
  "shutdownMsg = ''[SHUTDOWN] Gas Town is shutting down. Please save your state and update your handoff bead, then type /exit or wait to be terminated.''"

fun phase1_loop :: "string list \<Rightarrow> event list" where
  "phase1_loop [] = []"
| "phase1_loop (sess # rest) =
     [Print (Interrupting sess), Call_SendKeysRaw sess ''Escape''] @ phase1_loop rest"

fun phase2_loop :: "string list \<Rightarrow> event list" where
  "phase2_loop [] = []"
| "phase2_loop (sess # rest) =
     [Call_Sleep (500 * Millisecond), Call_SendKeys sess shutdownMsg] @ phase2_loop rest"

text \<open>
  The countdown \<open>for remaining := shutdownWait; remaining > 0; remaining -= 5\<close>. The first
  argument is \<open>shutdownWait\<close>, the second \<open>remaining\<close>.
\<close>

function countdown :: "int \<Rightarrow> int \<Rightarrow> event list" where
  "countdown wait remaining =
     (if remaining > 0 then
        (if remaining < wait then [Print (Remaining remaining)] else []) @
        [Call_Sleep ((if remaining < 5 then remaining else 5) * Second)] @
        countdown wait (remaining - 5)
      else [])"
  by pat_completeness auto
termination
  by (relation "measure (\<lambda>(wait, remaining). nat remaining)") auto

declare countdown.simps [simp del]

definition runGracefulShutdown ::
  "params \<Rightarrow> flags \<Rightarrow> world \<Rightarrow> string list \<Rightarrow> string \<Rightarrow> world \<times> event list"
where
  "runGracefulShutdown c f w gtSessions townRoot =
     (case killSessionsInOrder c w gtSessions of (w', stopped, kills) \<Rightarrow>
        (w',
         [Print (GracefulHeader (shutdownWait f)), Print (Phase1 (length gtSessions))] @
         phase1_loop gtSessions @
         [Print Phase2] @
         phase2_loop gtSessions @
         [Print (Phase3 (shutdownWait f)), Print CtrlCHint] @
         countdown (shutdownWait f) (shutdownWait f) @
         [Print Phase4] @
         kills @
         [Print Phase5] @
         (if townRoot \<noteq> [] then cleanupPolecats f w' else []) @
         [Print (GracefulComplete stopped)]))"

definition runImmediateShutdown ::
  "params \<Rightarrow> flags \<Rightarrow> world \<Rightarrow> string list \<Rightarrow> string \<Rightarrow> world \<times> event list"
where
  "runImmediateShutdown c f w gtSessions townRoot =
     (case killSessionsInOrder c w gtSessions of (w', stopped, kills) \<Rightarrow>
        (w',
         [Print ShuttingDown] @
         kills @
         (if townRoot \<noteq> [] then [Print CleaningUp] @ cleanupPolecats f w' else []) @
         [Print (ShutdownComplete stopped)]))"

datatype error =
    NotInWorkspace
  | StartingMayorFailed string
  | StartingDeaconFailed string
  | ListingSessionsFailed string

text \<open>\<open>workspace.FindFromCwd\<close>, whose error is discarded: the empty string when no root is found.\<close>

definition FindFromCwd :: "world \<Rightarrow> string" where
  "FindFromCwd w = (case workspace_root w of None \<Rightarrow> [] | Some root \<Rightarrow> root)"

definition runShutdown :: "params \<Rightarrow> flags \<Rightarrow> world \<Rightarrow> error option \<times> world \<times> event list" where
  "runShutdown c f w =
     (let townRoot = FindFromCwd w in
      case ListSessions w of
        Inl err \<Rightarrow> (Some (ListingSessionsFailed err), w, [])
      | Inr sessions \<Rightarrow>
          (case categorizeSessions c f sessions of (toStop, preserved) \<Rightarrow>
             if length toStop = 0 then (None, w, [Print WasNotRunning])
             else
               (let shown =
                      [Print (SessionsToStop toStop)] @
                      (if length preserved > 0 \<and> \<not> shutdownAll f
                       then [Print (SessionsPreserved preserved)] else []);
                    asked =
                      (if \<not> shutdownYes f then [Print ProceedPrompt, Call_ReadString] else []);
                    response = TrimSpace c (ToLower c (stdin_line w))
                in
                if \<not> shutdownYes f \<and> response \<noteq> ''y'' \<and> response \<noteq> ''yes''
                then (None, w, shown @ asked @ [Print ShutdownCancelled])
                else
                  (case (if shutdownGraceful f
                         then runGracefulShutdown c f w toStop townRoot
                         else runImmediateShutdown c f w toStop townRoot) of
                     (w', evs) \<Rightarrow> (None, w', shown @ asked @ evs)))))"

section \<open>Startup\<close>

definition runStart :: "params \<Rightarrow> world \<Rightarrow> error option \<times> world \<times> event list" where
  "runStart c w =
     (case workspace_root w of
        None \<Rightarrow> (Some NotInWorkspace, w, [])
      | Some townRoot \<Rightarrow>
          (case (if HasSession w (MayorSessionName c)
                 then (None, w, [Print MayorAlreadyRunning])
                 else (case startMayorSession c w of
                         (Some err, w') \<Rightarrow>
                           (Some err, w', [Print StartingMayor, Call_startMayorSession])
                       | (None, w') \<Rightarrow>
                           (None, w', [Print StartingMayor, Call_startMayorSession,
                                       Print MayorStarted]))) of
             (Some err, w1, e1) \<Rightarrow>
               (Some (StartingMayorFailed err), w1, Print (StartingGasTown townRoot) # e1)
           | (None, w1, e1) \<Rightarrow>
               (case (if HasSession w1 (DeaconSessionName c)
                      then (None, w1, [Print DeaconAlreadyRunning])
                      else (case startDeaconSession c w1 of
                              (Some err, w') \<Rightarrow>
                                (Some err, w', [Print StartingDeacon, Call_startDeaconSession])
                            | (None, w') \<Rightarrow>
                                (None, w', [Print StartingDeacon, Call_startDeaconSession,
                                            Print DeaconStarted]))) of
                  (Some err, w2, e2) \<Rightarrow>
                    (Some (StartingDeaconFailed err), w2,
                     Print (StartingGasTown townRoot) # e1 @ e2)
                | (None, w2, e2) \<Rightarrow>
                    (None, w2,
                     Print (StartingGasTown townRoot) # e1 @ e2 @ [Print GasTownIsRunning]))))"

section \<open>Observations on a trace\<close>

text \<open>The sessions \<open>KillSession\<close> was called on, and those reported stopped, in order.\<close>

definition kill_calls :: "event list \<Rightarrow> string list" where
  "kill_calls evs = concat (map (\<lambda>e. case e of Call_KillSession s \<Rightarrow> [s] | _ \<Rightarrow> []) evs)"

definition stopped_sessions :: "event list \<Rightarrow> string list" where
  "stopped_sessions evs =
     concat (map (\<lambda>e. case e of Print (Stopped s) \<Rightarrow> [s] | _ \<Rightarrow> []) evs)"

text \<open>The calls of a trace: every event that is not a printed line.\<close>

definition calls :: "event list \<Rightarrow> event list" where
  "calls evs = filter (\<lambda>e. case e of Print m \<Rightarrow> False | _ \<Rightarrow> True) evs"

text \<open>The time slept, in nanoseconds.\<close>

definition sleep_total :: "event list \<Rightarrow> int" where
  "sleep_total evs = sum_list (map (\<lambda>e. case e of Call_Sleep d \<Rightarrow> d | _ \<Rightarrow> 0) evs)"

text \<open>
  What the reclamation pass did, read off its trace: the arguments of its
  \<open>RemoveWithOptions\<close> and \<open>DeleteBranch\<close> calls, its warnings, the entries of the report
  of polecats with uncommitted work, and the two totals of the last line.
\<close>

definition remove_calls :: "event list \<Rightarrow> (string \<times> string \<times> bool \<times> bool) list" where
  "remove_calls evs =
     concat (map (\<lambda>e. case e of Call_RemoveWithOptions r n force nuclear \<Rightarrow> [(r, n, force, nuclear)]
                              | _ \<Rightarrow> []) evs)"

definition branch_deletes :: "event list \<Rightarrow> (path \<times> string \<times> bool) list" where
  "branch_deletes evs =
     concat (map (\<lambda>e. case e of Call_DeleteBranch dir b force \<Rightarrow> [(dir, b, force)] | _ \<Rightarrow> []) evs)"

definition nuclear_warnings :: "event list \<Rightarrow> (string \<times> string \<times> string) list" where
  "nuclear_warnings evs =
     concat (map (\<lambda>e. case e of Print (NuclearRemoving r n s) \<Rightarrow> [(r, n, s)] | _ \<Rightarrow> []) evs)"

definition uncommitted_report :: "event list \<Rightarrow> string list" where
  "uncommitted_report evs =
     concat (map (\<lambda>e. case e of Print (UncommittedReport us) \<Rightarrow> us | _ \<Rightarrow> []) evs)"

definition cleaned_total :: "event list \<Rightarrow> nat" where
  "cleaned_total evs = sum_list (map (\<lambda>e. case e of Print (Tally n k) \<Rightarrow> n | _ \<Rightarrow> 0) evs)"

definition skipped_total :: "event list \<Rightarrow> nat" where
  "skipped_total evs = sum_list (map (\<lambda>e. case e of Print (Tally n k) \<Rightarrow> k | _ \<Rightarrow> 0) evs)"

text \<open>
  Whether a trace holds anything the reclamation pass does: every run of
  \<open>cleanupPolecats\<close> prints at least one of its own lines.
\<close>

definition reclamation_event :: "event \<Rightarrow> bool" where
  "reclamation_event e =
     (case e of
        Call_RemoveWithOptions r n force nuclear \<Rightarrow> True
      | Call_DeleteBranch dir b force \<Rightarrow> True
      | Print (CouldNotLoadRigs err) \<Rightarrow> True
      | Print (CouldNotDiscoverRigs err) \<Rightarrow> True
      | Print (CouldNotCheck r n) \<Rightarrow> True
      | Print (NuclearRemoving r n s) \<Rightarrow> True
      | Print (CleanupFailed r n err) \<Rightarrow> True
      | Print (CleanedUp r n) \<Rightarrow> True
      | Print (UncommittedReport us) \<Rightarrow> True
      | Print (Tally n k) \<Rightarrow> True
      | Print NoPolecats \<Rightarrow> True
      | _ \<Rightarrow> False)"

definition start_calls :: "event list \<Rightarrow> event list" where
  "start_calls evs = filter (\<lambda>e. e = Call_startMayorSession \<or> e = Call_startDeaconSession) evs"

section \<open>Vocabulary of the properties\<close>

text \<open>The polecats the pass reaches: those of every rig whose \<open>List()\<close> succeeds, in order.\<close>

definition visited :: "rig list \<Rightarrow> (rig \<times> polecat) list" where
  "visited rigs =
     concat (map (\<lambda>r. case ListPolecats r of Inl err \<Rightarrow> [] | Inr ps \<Rightarrow> map (Pair r) ps) rigs)"

definition check_failed :: "polecat \<Rightarrow> bool" where
  "check_failed p = (case CheckUncommittedWork p of Inl err \<Rightarrow> True | Inr s \<Rightarrow> False)"

definition has_uncommitted :: "polecat \<Rightarrow> bool" where
  "has_uncommitted p = (case CheckUncommittedWork p of Inl err \<Rightarrow> False | Inr s \<Rightarrow> \<not> Clean s)"

definition is_clean :: "polecat \<Rightarrow> bool" where
  "is_clean p = (case CheckUncommittedWork p of Inl err \<Rightarrow> False | Inr s \<Rightarrow> Clean s)"

definition change_summary :: "polecat \<Rightarrow> string" where
  "change_summary p = (case CheckUncommittedWork p of Inl err \<Rightarrow> [] | Inr s \<Rightarrow> Summary s)"

text \<open>The line of the report for polecat \<open>p\<close> of rig \<open>r\<close>: \<open>"%s/%s (%s)"\<close>.\<close>

definition report_entry :: "rig \<Rightarrow> polecat \<Rightarrow> string" where
  "report_entry r p = RigName r @ ''/'' @ Name p @ '' ('' @ change_summary p @ '')''"

definition removal_succeeds :: "flags \<Rightarrow> polecat \<Rightarrow> bool" where
  "removal_succeeds f p = (RemoveResult p True (shutdownNuclear f) = None)"

definition removal_attempted :: "flags \<Rightarrow> polecat \<Rightarrow> bool" where
  "removal_attempted f p = (shutdownNuclear f \<or> is_clean p)"

definition reclaimed :: "flags \<Rightarrow> polecat \<Rightarrow> bool" where
  "reclaimed f p = (removal_attempted f p \<and> removal_succeeds f p)"

text \<open>
  What going through the polecats \<open>xs\<close> does to the counters and adds to the trace, as
  one relation between the state before, the state after and the events.
\<close>

definition pass_effect ::
  "flags \<Rightarrow> (rig \<times> polecat) list \<Rightarrow> cleanup_state \<Rightarrow> cleanup_state \<Rightarrow> event list \<Rightarrow> bool"
where
  "pass_effect f xs st st' evs =
     (totalCleaned st' = totalCleaned st + length (filter (\<lambda>(r, p). reclaimed f p) xs) \<and>
      totalSkipped st' = totalSkipped st + length (filter (\<lambda>(r, p). \<not> reclaimed f p) xs) \<and>
      uncommittedPolecats st' =
        uncommittedPolecats st @
        map (\<lambda>(r, p). report_entry r p)
          (filter (\<lambda>(r, p). \<not> shutdownNuclear f \<and> has_uncommitted p) xs) \<and>
      remove_calls evs =
        map (\<lambda>(r, p). (RigName r, Name p, True, shutdownNuclear f))
          (filter (\<lambda>(r, p). removal_attempted f p) xs) \<and>
      branch_deletes evs =
        map (\<lambda>(r, p). (Join (RigPath r) [''mayor'', ''rig''], ''polecat/'' @ Name p, True))
          (filter (\<lambda>(r, p). reclaimed f p) xs) \<and>
      nuclear_warnings evs =
        map (\<lambda>(r, p). (RigName r, Name p, change_summary p))
          (filter (\<lambda>(r, p). shutdownNuclear f \<and> has_uncommitted p) xs) \<and>
      uncommitted_report evs = [] \<and> cleaned_total evs = 0 \<and> skipped_total evs = 0)"

text \<open>
  The spec's reading of the session classes, on the code's own tests: a singleton has one
  of the two reserved names, a crew session has the segment \<open>-crew-\<close> in its name, a
  monitor-role session has \<open>witness\<close> or \<open>refinery\<close> as the third of its segments, and an
  ephemeral worker is a session that is none of the three.
\<close>

definition is_fleet :: "string \<Rightarrow> bool" where
  "is_fleet sess = HasPrefix sess ''gt-''"

definition is_singleton :: "params \<Rightarrow> string \<Rightarrow> bool" where
  "is_singleton c sess = (sess = MayorSessionName c \<or> sess = DeaconSessionName c)"

definition is_monitor :: "string \<Rightarrow> bool" where
  "is_monitor sess =
     (length (Split sess (CHR ''-'')) \<ge> 3 \<and>
      (Split sess (CHR ''-'') ! 2 = ''witness'' \<or> Split sess (CHR ''-'') ! 2 = ''refinery''))"

definition spec_ephemeral :: "params \<Rightarrow> string \<Rightarrow> bool" where
  "spec_ephemeral c sess = (\<not> is_singleton c sess \<and> \<not> isCrew sess \<and> \<not> is_monitor sess)"

section \<open>The dispatch result record\<close>

text \<open>
  Modelled from the spec: the \<open>slingResult\<close> struct, its \<open>slingAction\<close> constants and its JSON
  field tags are declared in a file that is not among the sources; only their test is.
  The record has the fields the test sets, the action is one of the three the spec
  lists (\<open>slung | spawned | dry_run\<close>) with the strings the test expects, and marshalling
  writes the fields in the order the spec lists them, under the keys the test reads,
  leaving out an optional field that is empty. That \<open>spawned_polecat\<close> is left out when
  false is an assumption: neither the spec nor the test settles it.
\<close>

datatype slingAction = slingActionSlung | slingActionSpawned | slingActionDryRun

fun action_string :: "slingAction \<Rightarrow> string" where
  "action_string slingActionSlung = ''slung''"
| "action_string slingActionSpawned = ''spawned''"
| "action_string slingActionDryRun = ''dry_run''"

record slingResult =
  Action :: slingAction
  BeadID :: string
  OriginalBeadID :: string
  Target :: string
  Formula :: string
  WispID :: string
  ConvoyID :: string
  SpawnedPolecat :: bool
  PolecatName :: string
  NudgeSent :: bool

datatype json_value = JString string | JBool bool

definition omitempty :: "string \<Rightarrow> string \<Rightarrow> (string \<times> json_value) list" where
  "omitempty key v = (if v = [] then [] else [(key, JString v)])"

definition Marshal :: "slingResult \<Rightarrow> (string \<times> json_value) list" where
  "Marshal r =
     [(''action'', JString (action_string (Action r))),
      (''bead_id'', JString (BeadID r))] @
     omitempty ''original_bead_id'' (OriginalBeadID r) @
     [(''target'', JString (Target r))] @
     omitempty ''formula'' (Formula r) @
     omitempty ''wisp_id'' (WispID r) @
     omitempty ''convoy_id'' (ConvoyID r) @
     (if SpawnedPolecat r then [(''spawned_polecat'', JBool True)] else []) @
     omitempty ''polecat_name'' (PolecatName r) @
     [(''nudge_sent'', JBool (NudgeSent r))]"

section \<open>Sample inputs\<close>

text \<open>
  A town with the usual reserved names, whose operator types ASCII: lower-casing and
  trimming are then the ASCII ones.
\<close>

definition ascii_lower :: "string \<Rightarrow> string" where
  "ascii_lower s =
     map (\<lambda>ch. if (65::nat) \<le> of_char ch \<and> of_char ch \<le> (90::nat)
              then char_of (of_char ch + (32::nat)) else ch) s"

definition ascii_space :: "char \<Rightarrow> bool" where
  "ascii_space ch = (ch \<in> {CHR '' '', CHR 0x09, CHR 0x0A, CHR 0x0B, CHR 0x0C, CHR 0x0D})"

definition ascii_trim :: "string \<Rightarrow> string" where
  "ascii_trim s = rev (dropWhile ascii_space (rev (dropWhile ascii_space s)))"

definition town :: params where
  "town = \<lparr>MayorSessionName = ''gt-mayor'', DeaconSessionName = ''gt-deacon'',
           ToLower = ascii_lower, TrimSpace = ascii_trim\<rparr>"

definition default_flags :: flags where
  "default_flags = \<lparr>shutdownGraceful = False, shutdownWait = 30, shutdownAll = False,
                    shutdownYes = False, shutdownPolecatsOnly = False, shutdownNuclear = False\<rparr>"

definition toast :: polecat where
  "toast = \<lparr>Name = ''Toast'', ClonePath = ''/town/rig/polecats/Toast'',
            CheckUncommittedWork = Inr \<lparr>Clean = True, Summary = ''clean''\<rparr>,
            RemoveResult = (\<lambda>force nuclear. None), DeleteBranchResult = None\<rparr>"

definition nux :: polecat where
  "nux = \<lparr>Name = ''nux'', ClonePath = ''/town/rig/polecats/nux'',
          CheckUncommittedWork = Inr \<lparr>Clean = False, Summary = ''2 modified''\<rparr>,
          RemoveResult = (\<lambda>force nuclear. None), DeleteBranchResult = None\<rparr>"

definition furiosa :: polecat where
  "furiosa = \<lparr>Name = ''furiosa'', ClonePath = ''/town/rig/polecats/furiosa'',
              CheckUncommittedWork = Inl ''not a git repository'',
              RemoveResult = (\<lambda>force nuclear. None), DeleteBranchResult = None\<rparr>"

definition stuck_toast :: polecat where
  "stuck_toast = \<lparr>Name = ''Toast'', ClonePath = ''/town/rig/polecats/Toast'',
                  CheckUncommittedWork = Inr \<lparr>Clean = True, Summary = ''clean''\<rparr>,
                  RemoveResult = (\<lambda>force nuclear. Some ''worktree is locked''),
                  DeleteBranchResult = None\<rparr>"

definition the_rig :: "polecat list \<Rightarrow> rig" where
  "the_rig ps = \<lparr>RigName = ''rig'', RigPath = ''/town/rig'', ListPolecats = Inr ps\<rparr>"

definition the_world :: "string list \<Rightarrow> string \<Rightarrow> polecat list \<Rightarrow> world" where
  "the_world sessions answer ps =
     \<lparr>live = sessions, list_sessions_err = None, kill_errs = [],
      start_mayor_err = None, start_deacon_err = None,
      workspace_root = Some ''/town'', stdin_line = answer,
      load_rigs_config_err = None, discover_rigs = Inr [the_rig ps]\<rparr>"

section \<open>Facts about the kill order\<close>

lemma inList_set: "inList ss s = (s \<in> set ss)"
  by (induction ss) auto

lemma categorize_loop_filter:
  "categorize_loop c f ss (a, b) =
     (a @ filter (\<lambda>s. HasPrefix s ''gt-'' \<and>
                     (if shutdownPolecatsOnly f then isPolecat c s else shutdownAll f \<or> \<not> isCrew s)) ss,
      b @ filter (\<lambda>s. HasPrefix s ''gt-'' \<and>
                     \<not> (if shutdownPolecatsOnly f then isPolecat c s else shutdownAll f \<or> \<not> isCrew s)) ss)"
  by (induction ss arbitrary: a b) auto

lemma kill_calls_append: "kill_calls (xs @ ys) = kill_calls xs @ kill_calls ys"
  by (simp add: kill_calls_def)

lemma kill_calls_kill_one: "kill_calls (snd (snd (kill_one w s))) = [s]"
  by (simp add: kill_one_def kill_calls_def split: prod.splits bool.splits)

lemma kill_calls_kill_others:
  "kill_calls (snd (snd (kill_others c w ss))) =
     filter (\<lambda>s. s \<noteq> DeaconSessionName c \<and> s \<noteq> MayorSessionName c) ss"
proof (induction ss arbitrary: w)
  case Nil
  then show ?case by (simp add: kill_calls_def)
next
  case (Cons s ss)
  show ?case
  proof (cases "s = DeaconSessionName c \<or> s = MayorSessionName c")
    case True
    then show ?thesis using Cons.IH by auto
  next
    case False
    obtain w1 n1 e1 where k1: "kill_one w s = (w1, n1, e1)" by (cases "kill_one w s") auto
    obtain w2 n2 e2 where k2: "kill_others c w1 ss = (w2, n2, e2)" by (cases "kill_others c w1 ss") auto
    have "kill_calls e1 = [s]" using kill_calls_kill_one [of w s] k1 by simp
    moreover have "kill_calls e2 = filter (\<lambda>s. s \<noteq> DeaconSessionName c \<and> s \<noteq> MayorSessionName c) ss"
      using Cons.IH [of w1] k2 by simp
    ultimately show ?thesis using False k1 k2 by (simp add: kill_calls_append)
  qed
qed

lemma kill_calls_killSessionsInOrder:
  "kill_calls (snd (snd (killSessionsInOrder c w ss))) =
     (if DeaconSessionName c \<in> set ss then [DeaconSessionName c] else []) @
     filter (\<lambda>s. s \<noteq> DeaconSessionName c \<and> s \<noteq> MayorSessionName c) ss @
     (if MayorSessionName c \<in> set ss then [MayorSessionName c] else [])"
proof -
  obtain w1 n1 e1 where k1: "(if inList ss (DeaconSessionName c) then kill_one w (DeaconSessionName c)
            else (w, 0, [])) = (w1, n1, e1)" by (metis prod_cases3)
  obtain w2 n2 e2 where k2: "kill_others c w1 ss = (w2, n2, e2)" by (metis prod_cases3)
  obtain w3 n3 e3 where k3: "(if inList ss (MayorSessionName c) then kill_one w2 (MayorSessionName c)
              else (w2, 0, [])) = (w3, n3, e3)" by (metis prod_cases3)
  have c1: "kill_calls e1 = (if DeaconSessionName c \<in> set ss then [DeaconSessionName c] else [])"
    using k1 kill_calls_kill_one [of w "DeaconSessionName c"]
    by (auto simp: inList_set kill_calls_def split: if_splits)
  have c2: "kill_calls e2 = filter (\<lambda>s. s \<noteq> DeaconSessionName c \<and> s \<noteq> MayorSessionName c) ss"
    using k2 kill_calls_kill_others [of c w1 ss] by simp
  have c3: "kill_calls e3 = (if MayorSessionName c \<in> set ss then [MayorSessionName c] else [])"
    using k3 kill_calls_kill_one [of w2 "MayorSessionName c"]
    by (auto simp: inList_set kill_calls_def split: if_splits)
  have "killSessionsInOrder c w ss = (w3, n1 + n2 + n3, e1 @ e2 @ e3)"
    unfolding killSessionsInOrder_def k1 using k2 k3 by simp
  then show ?thesis using c1 c2 c3 by (simp add: kill_calls_append)
qed


lemma stopped_sessions_append: "stopped_sessions (xs @ ys) = stopped_sessions xs @ stopped_sessions ys"
  by (simp add: stopped_sessions_def)

lemma kill_one_cases:
  "kill_one w s = (w', n, e) \<Longrightarrow>
     (w' = w\<lparr>live := removeAll s (live w)\<rparr> \<and> n = 1 \<and> e = [Call_KillSession s, Print (Stopped s)]
        \<and> s \<in> set (live w) \<and> s \<notin> set (kill_errs w))
     \<or> (w' = w \<and> n = 0 \<and> e = [Call_KillSession s])"
  by (auto simp: kill_one_def KillSession_def split: if_splits)

lemma kill_one_subseq: "subseq (stopped_sessions (snd (snd (kill_one w s)))) (kill_calls (snd (snd (kill_one w s))))"
proof -
  obtain w' n e where k: "kill_one w s = (w', n, e)" by (metis prod_cases3)
  from kill_one_cases [OF k] show ?thesis using k
    by (auto simp: stopped_sessions_def kill_calls_def)
qed

lemma kill_one_count: "length (stopped_sessions (snd (snd (kill_one w s)))) = fst (snd (kill_one w s))"
proof -
  obtain w' n e where k: "kill_one w s = (w', n, e)" by (metis prod_cases3)
  from kill_one_cases [OF k] show ?thesis using k
    by (auto simp: stopped_sessions_def)
qed

lemma kill_others_subseq:
  "subseq (stopped_sessions (snd (snd (kill_others c w ss)))) (kill_calls (snd (snd (kill_others c w ss))))"
proof (induction ss arbitrary: w)
  case Nil
  then show ?case by (simp add: kill_calls_def stopped_sessions_def)
next
  case (Cons s ss)
  show ?case
  proof (cases "s = DeaconSessionName c \<or> s = MayorSessionName c")
    case True
    then show ?thesis using Cons.IH by auto
  next
    case False
    obtain w1 n1 e1 where k1: "kill_one w s = (w1, n1, e1)" by (metis prod_cases3)
    obtain w2 n2 e2 where k2: "kill_others c w1 ss = (w2, n2, e2)" by (metis prod_cases3)
    have "subseq (stopped_sessions e1) (kill_calls e1)" using kill_one_subseq [of w s] k1 by simp
    moreover have "subseq (stopped_sessions e2) (kill_calls e2)" using Cons.IH [of w1] k2 by simp
    ultimately show ?thesis using False k1 k2
      by (simp add: kill_calls_append stopped_sessions_append list_emb_append_mono)
  qed
qed

lemma kill_others_count:
  "length (stopped_sessions (snd (snd (kill_others c w ss)))) = fst (snd (kill_others c w ss))"
proof (induction ss arbitrary: w)
  case Nil
  then show ?case by (simp add: stopped_sessions_def)
next
  case (Cons s ss)
  show ?case
  proof (cases "s = DeaconSessionName c \<or> s = MayorSessionName c")
    case True
    then show ?thesis using Cons.IH by auto
  next
    case False
    obtain w1 n1 e1 where k1: "kill_one w s = (w1, n1, e1)" by (metis prod_cases3)
    obtain w2 n2 e2 where k2: "kill_others c w1 ss = (w2, n2, e2)" by (metis prod_cases3)
    have "length (stopped_sessions e1) = n1" using kill_one_count [of w s] k1 by simp
    moreover have "length (stopped_sessions e2) = n2" using Cons.IH [of w1] k2 by simp
    ultimately show ?thesis using False k1 k2
      by (simp add: stopped_sessions_append)
  qed
qed

lemma killSessionsInOrder_split:
  obtains w1 n1 e1 w2 n2 e2 w3 n3 e3 where
    "(if inList ss (DeaconSessionName c) then kill_one w (DeaconSessionName c) else (w, 0, [])) = (w1, n1, e1)"
    "kill_others c w1 ss = (w2, n2, e2)"
    "(if inList ss (MayorSessionName c) then kill_one w2 (MayorSessionName c) else (w2, 0, [])) = (w3, n3, e3)"
    "killSessionsInOrder c w ss = (w3, n1 + n2 + n3, e1 @ e2 @ e3)"
proof -
  obtain w1 n1 e1 where k1: "(if inList ss (DeaconSessionName c) then kill_one w (DeaconSessionName c)
            else (w, 0, [])) = (w1, n1, e1)" by (metis prod_cases3)
  obtain w2 n2 e2 where k2: "kill_others c w1 ss = (w2, n2, e2)" by (metis prod_cases3)
  obtain w3 n3 e3 where k3: "(if inList ss (MayorSessionName c) then kill_one w2 (MayorSessionName c)
              else (w2, 0, [])) = (w3, n3, e3)" by (metis prod_cases3)
  have "killSessionsInOrder c w ss = (w3, n1 + n2 + n3, e1 @ e2 @ e3)"
    unfolding killSessionsInOrder_def k1 using k2 k3 by simp
  with k1 k2 k3 that show thesis by blast
qed

lemma killSessionsInOrder_subseq:
  "subseq (stopped_sessions (snd (snd (killSessionsInOrder c w ss))))
          (kill_calls (snd (snd (killSessionsInOrder c w ss))))"
proof -
  obtain w1 n1 e1 w2 n2 e2 w3 n3 e3 where
    k1: "(if inList ss (DeaconSessionName c) then kill_one w (DeaconSessionName c) else (w, 0, [])) = (w1, n1, e1)" and
    k2: "kill_others c w1 ss = (w2, n2, e2)" and
    k3: "(if inList ss (MayorSessionName c) then kill_one w2 (MayorSessionName c) else (w2, 0, [])) = (w3, n3, e3)" and
    k: "killSessionsInOrder c w ss = (w3, n1 + n2 + n3, e1 @ e2 @ e3)"
    by (rule killSessionsInOrder_split)
  have s1: "subseq (stopped_sessions e1) (kill_calls e1)"
    using k1 kill_one_subseq [of w "DeaconSessionName c"]
    by (auto simp: stopped_sessions_def kill_calls_def split: if_splits)
  have s2: "subseq (stopped_sessions e2) (kill_calls e2)"
    using k2 kill_others_subseq [of c w1 ss] by simp
  have s3: "subseq (stopped_sessions e3) (kill_calls e3)"
    using k3 kill_one_subseq [of w2 "MayorSessionName c"]
    by (auto simp: stopped_sessions_def kill_calls_def split: if_splits)
  show ?thesis using s1 s2 s3 k
    by (simp add: kill_calls_append stopped_sessions_append list_emb_append_mono)
qed

lemma killSessionsInOrder_count:
  "length (stopped_sessions (snd (snd (killSessionsInOrder c w ss)))) = fst (snd (killSessionsInOrder c w ss))"
proof -
  obtain w1 n1 e1 w2 n2 e2 w3 n3 e3 where
    k1: "(if inList ss (DeaconSessionName c) then kill_one w (DeaconSessionName c) else (w, 0, [])) = (w1, n1, e1)" and
    k2: "kill_others c w1 ss = (w2, n2, e2)" and
    k3: "(if inList ss (MayorSessionName c) then kill_one w2 (MayorSessionName c) else (w2, 0, [])) = (w3, n3, e3)" and
    k: "killSessionsInOrder c w ss = (w3, n1 + n2 + n3, e1 @ e2 @ e3)"
    by (rule killSessionsInOrder_split)
  have s1: "length (stopped_sessions e1) = n1"
    using k1 kill_one_count [of w "DeaconSessionName c"]
    by (auto simp: stopped_sessions_def split: if_splits)
  have s2: "length (stopped_sessions e2) = n2"
    using k2 kill_others_count [of c w1 ss] by simp
  have s3: "length (stopped_sessions e3) = n3"
    using k3 kill_one_count [of w2 "MayorSessionName c"]
    by (auto simp: stopped_sessions_def split: if_splits)
  show ?thesis using s1 s2 s3 k
    by (simp add: stopped_sessions_append)
qed

section \<open>Facts about the reclamation pass\<close>

lemma obs_append:
  "remove_calls (xs @ ys) = remove_calls xs @ remove_calls ys"
  "branch_deletes (xs @ ys) = branch_deletes xs @ branch_deletes ys"
  "nuclear_warnings (xs @ ys) = nuclear_warnings xs @ nuclear_warnings ys"
  "uncommitted_report (xs @ ys) = uncommitted_report xs @ uncommitted_report ys"
  "cleaned_total (xs @ ys) = cleaned_total xs + cleaned_total ys"
  "skipped_total (xs @ ys) = skipped_total xs + skipped_total ys"
  by (simp_all add: remove_calls_def branch_deletes_def nuclear_warnings_def
        uncommitted_report_def cleaned_total_def skipped_total_def)

lemma pass_effect_Nil: "pass_effect f [] st st []"
  by (simp add: pass_effect_def remove_calls_def branch_deletes_def nuclear_warnings_def
        uncommitted_report_def cleaned_total_def skipped_total_def)

lemma pass_effect_append:
  "pass_effect f xs st st1 e1 \<Longrightarrow> pass_effect f ys st1 st2 e2 \<Longrightarrow>
   pass_effect f (xs @ ys) st st2 (e1 @ e2)"
  by (simp add: pass_effect_def obs_append)

lemma remove_polecat_obs:
  assumes "remove_polecat f r p st = (st', evs)"
  shows "remove_calls evs = [(RigName r, Name p, True, shutdownNuclear f)]"
    and "branch_deletes evs =
           (if removal_succeeds f p
            then [(Join (RigPath r) [''mayor'', ''rig''], ''polecat/'' @ Name p, True)] else [])"
    and "nuclear_warnings evs = []" and "uncommitted_report evs = []"
    and "cleaned_total evs = 0" and "skipped_total evs = 0"
    and "totalCleaned st' = totalCleaned st + (if removal_succeeds f p then 1 else 0)"
    and "totalSkipped st' = totalSkipped st + (if removal_succeeds f p then 0 else 1)"
    and "uncommittedPolecats st' = uncommittedPolecats st"
  using assms
  by (auto simp: remove_polecat_def removal_succeeds_def remove_calls_def branch_deletes_def
        nuclear_warnings_def uncommitted_report_def cleaned_total_def skipped_total_def
        split: option.splits)

lemma cleanup_polecat_effect:
  assumes "cleanup_polecat f r p st = (st', evs)"
  shows "pass_effect f [(r, p)] st st' evs"
proof (cases "CheckUncommittedWork p")
  case (Inl err)
  show ?thesis
  proof (cases "shutdownNuclear f")
    case True
    then have "remove_polecat f r p st = (st', evs)"
      using assms Inl by (simp add: cleanup_polecat_def)
    from remove_polecat_obs [OF this] show ?thesis
      using True Inl
      by (simp add: pass_effect_def reclaimed_def removal_attempted_def has_uncommitted_def)
  next
    case False
    then have "st' = st\<lparr>totalSkipped := totalSkipped st + 1\<rparr>"
      and "evs = [Print (CouldNotCheck (RigName r) (Name p))]"
      using assms Inl by (simp_all add: cleanup_polecat_def)
    then show ?thesis using False Inl
      by (simp add: pass_effect_def reclaimed_def removal_attempted_def has_uncommitted_def
            is_clean_def remove_calls_def branch_deletes_def
            nuclear_warnings_def uncommitted_report_def cleaned_total_def skipped_total_def)
  qed
next
  case (Inr s)
  show ?thesis
  proof (cases "Clean s")
    case True
    then have "remove_polecat f r p st = (st', evs)"
      using assms Inr by (simp add: cleanup_polecat_def)
    from remove_polecat_obs [OF this] show ?thesis
      using True Inr
      by (simp add: pass_effect_def reclaimed_def removal_attempted_def has_uncommitted_def
            is_clean_def)
  next
    case dirty: False
    show ?thesis
    proof (cases "shutdownNuclear f")
      case True
      obtain st1 e1 where rp: "remove_polecat f r p st = (st1, e1)"
        by (cases "remove_polecat f r p st") auto
      then have eq: "st' = st1" "evs = Print (NuclearRemoving (RigName r) (Name p) (Summary s)) # e1"
        using assms Inr dirty True by (simp_all add: cleanup_polecat_def)
      have obs: "remove_calls evs = remove_calls e1" "branch_deletes evs = branch_deletes e1"
        "nuclear_warnings evs = (RigName r, Name p, Summary s) # nuclear_warnings e1"
        "uncommitted_report evs = uncommitted_report e1"
        "cleaned_total evs = cleaned_total e1" "skipped_total evs = skipped_total e1"
        unfolding eq
        by (simp_all add: remove_calls_def branch_deletes_def
            nuclear_warnings_def uncommitted_report_def cleaned_total_def skipped_total_def)
      from remove_polecat_obs [OF rp] show ?thesis
        using True Inr dirty obs eq(1)
        by (simp add: pass_effect_def reclaimed_def removal_attempted_def has_uncommitted_def
            is_clean_def change_summary_def)
    next
      case False
      then have "st' = st\<lparr>uncommittedPolecats := uncommittedPolecats st @ [report_entry r p],
                    totalSkipped := totalSkipped st + 1\<rparr>"
        and "evs = []"
        using assms Inr dirty by (simp_all add: cleanup_polecat_def report_entry_def change_summary_def)
      then show ?thesis using False Inr dirty
        by (simp add: pass_effect_def reclaimed_def removal_attempted_def has_uncommitted_def
            is_clean_def remove_calls_def branch_deletes_def
            nuclear_warnings_def uncommitted_report_def cleaned_total_def skipped_total_def)
    qed
  qed
qed

lemma cleanup_polecats_effect:
  "cleanup_polecats f r ps st = (st', evs) \<Longrightarrow> pass_effect f (map (Pair r) ps) st st' evs"
proof (induction ps arbitrary: st st' evs)
  case Nil
  then show ?case by (simp add: pass_effect_Nil)
next
  case (Cons p ps)
  obtain st1 e1 where a: "cleanup_polecat f r p st = (st1, e1)"
    by (cases "cleanup_polecat f r p st") auto
  obtain st2 e2 where b: "cleanup_polecats f r ps st1 = (st2, e2)"
    by (cases "cleanup_polecats f r ps st1") auto
  have eq: "st' = st2" "evs = e1 @ e2" using Cons.prems a b by simp_all
  have "pass_effect f ([(r, p)] @ map (Pair r) ps) st st2 (e1 @ e2)"
    by (rule pass_effect_append [OF cleanup_polecat_effect [OF a] Cons.IH [OF b]])
  then show ?case using eq by simp
qed

lemma cleanup_rigs_effect:
  "cleanup_rigs f rigs st = (st', evs) \<Longrightarrow> pass_effect f (visited rigs) st st' evs"
proof (induction rigs arbitrary: st st' evs)
  case Nil
  then show ?case by (simp add: pass_effect_Nil visited_def)
next
  case (Cons r rigs)
  show ?case
  proof (cases "ListPolecats r")
    case (Inl err)
    then have "cleanup_rigs f rigs st = (st', evs)" using Cons.prems by simp
    from Cons.IH [OF this] show ?thesis using Inl by (simp add: visited_def)
  next
    case (Inr ps)
    obtain st1 e1 where a: "cleanup_polecats f r ps st = (st1, e1)"
      by (cases "cleanup_polecats f r ps st") auto
    obtain st2 e2 where b: "cleanup_rigs f rigs st1 = (st2, e2)"
      by (cases "cleanup_rigs f rigs st1") auto
    have eq: "st' = st2" "evs = e1 @ e2" using Cons.prems a b Inr by simp_all
    have "pass_effect f (map (Pair r) ps @ visited rigs) st st2 (e1 @ e2)"
      by (rule pass_effect_append [OF cleanup_polecats_effect [OF a] Cons.IH [OF b]])
    then show ?thesis using eq Inr by (simp add: visited_def)
  qed
qed

lemma cleanup_summary_obs:
  "remove_calls (cleanup_summary st) = []"
  "branch_deletes (cleanup_summary st) = []"
  "nuclear_warnings (cleanup_summary st) = []"
  "uncommitted_report (cleanup_summary st) = uncommittedPolecats st"
  "cleaned_total (cleanup_summary st) = totalCleaned st"
  "skipped_total (cleanup_summary st) = totalSkipped st"
  by (auto simp: cleanup_summary_def remove_calls_def branch_deletes_def
        nuclear_warnings_def uncommitted_report_def cleaned_total_def skipped_total_def)

lemma cleanupPolecats_pass:
  assumes "load_rigs_config_err w = None" and "discover_rigs w = Inr rigs"
  shows "cleaned_total (cleanupPolecats f w) = length (filter (\<lambda>(r, p). reclaimed f p) (visited rigs))"
    and "skipped_total (cleanupPolecats f w) = length (filter (\<lambda>(r, p). \<not> reclaimed f p) (visited rigs))"
    and "uncommitted_report (cleanupPolecats f w) =
           map (\<lambda>(r, p). report_entry r p)
             (filter (\<lambda>(r, p). \<not> shutdownNuclear f \<and> has_uncommitted p) (visited rigs))"
    and "remove_calls (cleanupPolecats f w) =
           map (\<lambda>(r, p). (RigName r, Name p, True, shutdownNuclear f))
             (filter (\<lambda>(r, p). removal_attempted f p) (visited rigs))"
    and "branch_deletes (cleanupPolecats f w) =
           map (\<lambda>(r, p). (Join (RigPath r) [''mayor'', ''rig''], ''polecat/'' @ Name p, True))
             (filter (\<lambda>(r, p). reclaimed f p) (visited rigs))"
    and "nuclear_warnings (cleanupPolecats f w) =
           map (\<lambda>(r, p). (RigName r, Name p, change_summary p))
             (filter (\<lambda>(r, p). shutdownNuclear f \<and> has_uncommitted p) (visited rigs))"
proof -
  let ?st0 = "\<lparr>totalCleaned = 0, totalSkipped = 0, uncommittedPolecats = []\<rparr>"
  obtain st evs where a: "cleanup_rigs f rigs ?st0 = (st, evs)"
    by (cases "cleanup_rigs f rigs ?st0") auto
  have eq: "cleanupPolecats f w = evs @ cleanup_summary st"
    using assms a by (simp add: cleanupPolecats_def)
  have pe: "pass_effect f (visited rigs) ?st0 st evs" by (rule cleanup_rigs_effect [OF a])
  show "cleaned_total (cleanupPolecats f w) = length (filter (\<lambda>(r, p). reclaimed f p) (visited rigs))"
    using pe unfolding eq by (simp add: pass_effect_def obs_append cleanup_summary_obs)
  show "skipped_total (cleanupPolecats f w) = length (filter (\<lambda>(r, p). \<not> reclaimed f p) (visited rigs))"
    using pe unfolding eq by (simp add: pass_effect_def obs_append cleanup_summary_obs)
  show "uncommitted_report (cleanupPolecats f w) =
           map (\<lambda>(r, p). report_entry r p)
             (filter (\<lambda>(r, p). \<not> shutdownNuclear f \<and> has_uncommitted p) (visited rigs))"
    using pe unfolding eq by (simp add: pass_effect_def obs_append cleanup_summary_obs)
  show "remove_calls (cleanupPolecats f w) =
           map (\<lambda>(r, p). (RigName r, Name p, True, shutdownNuclear f))
             (filter (\<lambda>(r, p). removal_attempted f p) (visited rigs))"
    using pe unfolding eq by (simp add: pass_effect_def obs_append cleanup_summary_obs)
  show "branch_deletes (cleanupPolecats f w) =
           map (\<lambda>(r, p). (Join (RigPath r) [''mayor'', ''rig''], ''polecat/'' @ Name p, True))
             (filter (\<lambda>(r, p). reclaimed f p) (visited rigs))"
    using pe unfolding eq by (simp add: pass_effect_def obs_append cleanup_summary_obs)
  show "nuclear_warnings (cleanupPolecats f w) =
           map (\<lambda>(r, p). (RigName r, Name p, change_summary p))
             (filter (\<lambda>(r, p). shutdownNuclear f \<and> has_uncommitted p) (visited rigs))"
    using pe unfolding eq by (simp add: pass_effect_def obs_append cleanup_summary_obs)
qed

section \<open>Which events each part of a shutdown can produce\<close>

lemma kill_calls_Nil_iff: "kill_calls evs = [] \<longleftrightarrow> (\<forall>s. Call_KillSession s \<notin> set evs)"
  by (induction evs) (auto simp: kill_calls_def split: event.splits)

lemma stopped_sessions_Nil_iff: "stopped_sessions evs = [] \<longleftrightarrow> (\<forall>s. Print (Stopped s) \<notin> set evs)"
  by (induction evs) (auto simp: stopped_sessions_def split: event.splits msg.splits)

lemma remove_polecat_events:
  "remove_polecat f r p st = (st', evs) \<Longrightarrow> e \<in> set evs \<Longrightarrow> reclamation_event e"
  by (auto simp: remove_polecat_def reclamation_event_def split: option.splits)

lemma cleanup_polecat_events:
  assumes "cleanup_polecat f r p st = (st', evs)" and "e \<in> set evs"
  shows "reclamation_event e"
proof (cases "CheckUncommittedWork p")
  case (Inl err)
  show ?thesis
  proof (cases "shutdownNuclear f")
    case True
    then have "remove_polecat f r p st = (st', evs)"
      using assms(1) Inl by (simp add: cleanup_polecat_def)
    then show ?thesis using assms(2) by (rule remove_polecat_events)
  next
    case False
    then have "evs = [Print (CouldNotCheck (RigName r) (Name p))]"
      using assms(1) Inl by (simp add: cleanup_polecat_def)
    then show ?thesis using assms(2) by (simp add: reclamation_event_def)
  qed
next
  case (Inr s)
  show ?thesis
  proof (cases "Clean s \<or> \<not> shutdownNuclear f")
    case True
    show ?thesis
    proof (cases "Clean s")
      case c: True
      then have "remove_polecat f r p st = (st', evs)"
        using assms(1) Inr by (simp add: cleanup_polecat_def)
      then show ?thesis using assms(2) by (rule remove_polecat_events)
    next
      case False
      then have "evs = []" using assms(1) Inr True by (simp add: cleanup_polecat_def)
      then show ?thesis using assms(2) by simp
    qed
  next
    case False
    obtain st1 e1 where rp: "remove_polecat f r p st = (st1, e1)"
      by (cases "remove_polecat f r p st") auto
    then have "evs = Print (NuclearRemoving (RigName r) (Name p) (Summary s)) # e1"
      using assms(1) Inr False by (simp add: cleanup_polecat_def)
    then have "e = Print (NuclearRemoving (RigName r) (Name p) (Summary s)) \<or> e \<in> set e1"
      using assms(2) by simp
    then show ?thesis using remove_polecat_events [OF rp]
      by (auto simp: reclamation_event_def)
  qed
qed

lemma cleanup_polecats_events:
  "cleanup_polecats f r ps st = (st', evs) \<Longrightarrow> e \<in> set evs \<Longrightarrow> reclamation_event e"
proof (induction ps arbitrary: st st' evs)
  case Nil
  then show ?case by simp
next
  case (Cons p ps)
  obtain st1 e1 where a: "cleanup_polecat f r p st = (st1, e1)"
    by (cases "cleanup_polecat f r p st") auto
  obtain st2 e2 where b: "cleanup_polecats f r ps st1 = (st2, e2)"
    by (cases "cleanup_polecats f r ps st1") auto
  have "evs = e1 @ e2" using Cons.prems a b by simp
  then have "e \<in> set e1 \<or> e \<in> set e2" using Cons.prems(2) by simp
  then show ?case using cleanup_polecat_events [OF a] Cons.IH [OF b] by blast
qed

lemma cleanup_rigs_events:
  "cleanup_rigs f rigs st = (st', evs) \<Longrightarrow> e \<in> set evs \<Longrightarrow> reclamation_event e"
proof (induction rigs arbitrary: st st' evs)
  case Nil
  then show ?case by simp
next
  case (Cons r rigs)
  show ?case
  proof (cases "ListPolecats r")
    case (Inl err)
    then have "cleanup_rigs f rigs st = (st', evs)" using Cons.prems by simp
    from Cons.IH [OF this Cons.prems(2)] show ?thesis .
  next
    case (Inr ps)
    obtain st1 e1 where a: "cleanup_polecats f r ps st = (st1, e1)"
      by (cases "cleanup_polecats f r ps st") auto
    obtain st2 e2 where b: "cleanup_rigs f rigs st1 = (st2, e2)"
      by (cases "cleanup_rigs f rigs st1") auto
    have "evs = e1 @ e2" using Cons.prems a b Inr by simp
    then have "e \<in> set e1 \<or> e \<in> set e2" using Cons.prems(2) by simp
    then show ?thesis using cleanup_polecats_events [OF a] Cons.IH [OF b] by blast
  qed
qed

lemma cleanupPolecats_events: "e \<in> set (cleanupPolecats f w) \<Longrightarrow> reclamation_event e"
proof -
  assume e: "e \<in> set (cleanupPolecats f w)"
  show ?thesis
  proof (cases "load_rigs_config_err w")
    case (Some err)
    then show ?thesis using e by (simp add: cleanupPolecats_def reclamation_event_def)
  next
    case None
    show ?thesis
    proof (cases "discover_rigs w")
      case (Inl err)
      then show ?thesis using e None by (simp add: cleanupPolecats_def reclamation_event_def)
    next
      case (Inr rigs)
      let ?st0 = "\<lparr>totalCleaned = 0, totalSkipped = 0, uncommittedPolecats = []\<rparr>"
      obtain st evs where a: "cleanup_rigs f rigs ?st0 = (st, evs)"
        by (cases "cleanup_rigs f rigs ?st0") auto
      have "cleanupPolecats f w = evs @ cleanup_summary st"
        using None Inr a by (simp add: cleanupPolecats_def)
      then have "e \<in> set evs \<or> e \<in> set (cleanup_summary st)" using e by simp
      then show ?thesis
      proof
        assume "e \<in> set evs"
        then show ?thesis by (rule cleanup_rigs_events [OF a])
      next
        assume "e \<in> set (cleanup_summary st)"
        then show ?thesis by (auto simp: cleanup_summary_def reclamation_event_def split: if_splits)
      qed
    qed
  qed
qed

lemma cleanupPolecats_nonempty: "cleanupPolecats f w \<noteq> []"
  by (auto simp: cleanupPolecats_def cleanup_summary_def split: option.splits sum.splits prod.splits)

lemma cleanupPolecats_no_kills:
  "kill_calls (cleanupPolecats f w) = []" "stopped_sessions (cleanupPolecats f w) = []"
proof -
  have "Call_KillSession s \<notin> set (cleanupPolecats f w)" for s
    using cleanupPolecats_events [of "Call_KillSession s" f w]
    by (auto simp: reclamation_event_def)
  then show "kill_calls (cleanupPolecats f w) = []" by (simp add: kill_calls_Nil_iff)
  have "Print (Stopped s) \<notin> set (cleanupPolecats f w)" for s
    using cleanupPolecats_events [of "Print (Stopped s)" f w]
    by (auto simp: reclamation_event_def)
  then show "stopped_sessions (cleanupPolecats f w) = []" by (simp add: stopped_sessions_Nil_iff)
qed

lemma phase_loops_no_kills:
  "kill_calls (phase1_loop ss) = []" "stopped_sessions (phase1_loop ss) = []"
  "kill_calls (phase2_loop ss) = []" "stopped_sessions (phase2_loop ss) = []"
  by (induction ss) (simp_all add: kill_calls_def stopped_sessions_def)

lemma countdown_no_kills:
  "kill_calls (countdown wait remaining) = [] \<and> stopped_sessions (countdown wait remaining) = []"
proof (induction wait remaining rule: countdown.induct)
  case (1 wait remaining)
  show ?case
  proof (cases "remaining > 0")
    case True
    with 1 show ?thesis
      by (subst (1 2) countdown.simps) (simp add: kill_calls_def stopped_sessions_def)
  next
    case False
    then show ?thesis by (simp add: countdown.simps kill_calls_def stopped_sessions_def)
  qed
qed

lemma phase_loops_no_reclamation:
  "e \<in> set (phase1_loop ss) \<Longrightarrow> \<not> reclamation_event e"
  "e \<in> set (phase2_loop ss) \<Longrightarrow> \<not> reclamation_event e"
  by (induction ss) (auto simp: reclamation_event_def)

lemma countdown_no_reclamation:
  "e \<in> set (countdown wait remaining) \<Longrightarrow> \<not> reclamation_event e"
proof (induction wait remaining rule: countdown.induct)
  case (1 wait remaining)
  show ?case
  proof (cases "remaining > 0")
    case True
    with 1 show ?thesis
      by (subst (asm) (2) countdown.simps) (auto simp: reclamation_event_def split: if_splits)
  next
    case False
    then show ?thesis using 1(2) by (simp add: countdown.simps)
  qed
qed

section \<open>The paths through shutdown\<close>

lemma categorizeSessions_filter:
  "categorizeSessions c f ss =
     (filter (\<lambda>s. HasPrefix s ''gt-'' \<and>
                (if shutdownPolecatsOnly f then isPolecat c s else shutdownAll f \<or> \<not> isCrew s)) ss,
      filter (\<lambda>s. HasPrefix s ''gt-'' \<and>
                \<not> (if shutdownPolecatsOnly f then isPolecat c s else shutdownAll f \<or> \<not> isCrew s)) ss)"
  using categorize_loop_filter [of c f ss "[]" "[]"] by (simp add: categorizeSessions_def)

lemma isPolecat_iff:
  "isPolecat c s \<longleftrightarrow>
     spec_ephemeral c s \<and> length (Split s (CHR ''-'')) \<ge> 3 \<and> Split s (CHR ''-'') ! 2 \<noteq> ''crew''"
  by (auto simp: isPolecat_def spec_ephemeral_def is_singleton_def is_monitor_def Let_def)

lemma kill_calls_Cons:
  "kill_calls [] = []"
  "kill_calls (e # es) = (case e of Call_KillSession s \<Rightarrow> [s] | _ \<Rightarrow> []) @ kill_calls es"
  by (simp_all add: kill_calls_def)

lemma stopped_sessions_Cons:
  "stopped_sessions [] = []"
  "stopped_sessions (e # es) = (case e of Print (Stopped s) \<Rightarrow> [s] | _ \<Rightarrow> []) @ stopped_sessions es"
  by (simp_all add: stopped_sessions_def)

lemma graceful_kills:
  "kill_calls (snd (runGracefulShutdown c f w ss root)) = kill_calls (snd (snd (killSessionsInOrder c w ss)))"
  "stopped_sessions (snd (runGracefulShutdown c f w ss root)) = stopped_sessions (snd (snd (killSessionsInOrder c w ss)))"
proof -
  obtain w' n kills where k: "killSessionsInOrder c w ss = (w', n, kills)" by (metis prod_cases3)
  show "kill_calls (snd (runGracefulShutdown c f w ss root)) = kill_calls (snd (snd (killSessionsInOrder c w ss)))"
    using k by (simp add: runGracefulShutdown_def kill_calls_append phase_loops_no_kills
        countdown_no_kills cleanupPolecats_no_kills kill_calls_Cons)
  show "stopped_sessions (snd (runGracefulShutdown c f w ss root)) = stopped_sessions (snd (snd (killSessionsInOrder c w ss)))"
    using k by (simp add: runGracefulShutdown_def stopped_sessions_append phase_loops_no_kills
        countdown_no_kills cleanupPolecats_no_kills stopped_sessions_Cons)
qed

lemma immediate_kills:
  "kill_calls (snd (runImmediateShutdown c f w ss root)) = kill_calls (snd (snd (killSessionsInOrder c w ss)))"
  "stopped_sessions (snd (runImmediateShutdown c f w ss root)) = stopped_sessions (snd (snd (killSessionsInOrder c w ss)))"
proof -
  obtain w' n kills where k: "killSessionsInOrder c w ss = (w', n, kills)" by (metis prod_cases3)
  show "kill_calls (snd (runImmediateShutdown c f w ss root)) = kill_calls (snd (snd (killSessionsInOrder c w ss)))"
    using k by (simp add: runImmediateShutdown_def kill_calls_append cleanupPolecats_no_kills kill_calls_Cons)
  show "stopped_sessions (snd (runImmediateShutdown c f w ss root)) = stopped_sessions (snd (snd (killSessionsInOrder c w ss)))"
    using k by (simp add: runImmediateShutdown_def stopped_sessions_append cleanupPolecats_no_kills stopped_sessions_Cons)
qed

lemma runShutdown_cases:
  obtains
    (list_failed) err where "ListSessions w = Inl err"
      "runShutdown c f w = (Some (ListingSessionsFailed err), w, [])"
  | (not_running) sessions where "ListSessions w = Inr sessions"
      "fst (categorizeSessions c f sessions) = []"
      "runShutdown c f w = (None, w, [Print WasNotRunning])"
  | (cancelled) sessions where "ListSessions w = Inr sessions"
      "fst (categorizeSessions c f sessions) \<noteq> []"
      "\<not> shutdownYes f"
      "TrimSpace c (ToLower c (stdin_line w)) \<noteq> ''y''"
      "TrimSpace c (ToLower c (stdin_line w)) \<noteq> ''yes''"
      "runShutdown c f w =
         (None, w,
          [Print (SessionsToStop (fst (categorizeSessions c f sessions)))] @
          (if length (snd (categorizeSessions c f sessions)) > 0 \<and> \<not> shutdownAll f
           then [Print (SessionsPreserved (snd (categorizeSessions c f sessions)))] else []) @
          [Print ProceedPrompt, Call_ReadString, Print ShutdownCancelled])"
  | (proceeded) sessions w' evs where "ListSessions w = Inr sessions"
      "fst (categorizeSessions c f sessions) \<noteq> []"
      "shutdownYes f \<or> TrimSpace c (ToLower c (stdin_line w)) = ''y''
         \<or> TrimSpace c (ToLower c (stdin_line w)) = ''yes''"
      "(if shutdownGraceful f
        then runGracefulShutdown c f w (fst (categorizeSessions c f sessions)) (FindFromCwd w)
        else runImmediateShutdown c f w (fst (categorizeSessions c f sessions)) (FindFromCwd w))
       = (w', evs)"
      "runShutdown c f w =
         (None, w',
          [Print (SessionsToStop (fst (categorizeSessions c f sessions)))] @
          (if length (snd (categorizeSessions c f sessions)) > 0 \<and> \<not> shutdownAll f
           then [Print (SessionsPreserved (snd (categorizeSessions c f sessions)))] else []) @
          (if \<not> shutdownYes f then [Print ProceedPrompt, Call_ReadString] else []) @ evs)"
proof (cases "ListSessions w")
  case (Inl err)
  then have "runShutdown c f w = (Some (ListingSessionsFailed err), w, [])"
    by (simp add: runShutdown_def)
  with Inl show thesis by (rule list_failed)
next
  case (Inr sessions)
  obtain toStop preserved where cat: "categorizeSessions c f sessions = (toStop, preserved)"
    by (cases "categorizeSessions c f sessions") auto
  show thesis
  proof (cases "toStop = []")
    case True
    then have "runShutdown c f w = (None, w, [Print WasNotRunning])"
      using Inr cat by (simp add: runShutdown_def)
    with Inr True cat show thesis by (intro not_running [of sessions]) simp_all
  next
    case ne: False
    let ?resp = "TrimSpace c (ToLower c (stdin_line w))"
    show thesis
    proof (cases "\<not> shutdownYes f \<and> ?resp \<noteq> ''y'' \<and> ?resp \<noteq> ''yes''")
      case True
      then have "runShutdown c f w =
         (None, w,
          [Print (SessionsToStop toStop)] @
          (if length preserved > 0 \<and> \<not> shutdownAll f then [Print (SessionsPreserved preserved)] else []) @
          [Print ProceedPrompt, Call_ReadString, Print ShutdownCancelled])"
        using Inr cat ne by (simp add: runShutdown_def Let_def)
      with Inr True cat ne show thesis by (intro cancelled [of sessions]) simp_all
    next
      case False
      obtain w' evs where run: "(if shutdownGraceful f
        then runGracefulShutdown c f w toStop (FindFromCwd w)
        else runImmediateShutdown c f w toStop (FindFromCwd w)) = (w', evs)"
        by (metis surj_pair)
      have "runShutdown c f w =
         (None, w',
          [Print (SessionsToStop toStop)] @
          (if length preserved > 0 \<and> \<not> shutdownAll f then [Print (SessionsPreserved preserved)] else []) @
          (if \<not> shutdownYes f then [Print ProceedPrompt, Call_ReadString] else []) @ evs)"
        using Inr cat ne False run by (auto simp add: runShutdown_def Let_def)
      with Inr False cat ne run show thesis
        by (intro proceeded [of sessions w' evs]) auto
    qed
  qed
qed

lemma subseq_set: "subseq xs ys \<Longrightarrow> set xs \<subseteq> set ys"
  by (auto elim: list_emb_set)

lemma subseq_first:
  assumes "subseq xs (d # rest)" and "d \<notin> set rest" and "d \<in> set xs"
  shows "hd xs = d \<and> d \<notin> set (tl xs)"
proof (cases xs)
  case Nil
  then show ?thesis using assms(3) by simp
next
  case (Cons x xs')
  show ?thesis
  proof (cases "x = d")
    case True
    then have "subseq xs' rest" using assms(1) Cons by simp
    then have "d \<notin> set xs'" using subseq_set assms(2) by blast
    then show ?thesis using Cons True by simp
  next
    case False
    then have "subseq xs rest" using assms(1) Cons by simp
    then show ?thesis using subseq_set assms(2,3) by blast
  qed
qed

lemma subseq_last:
  assumes "subseq xs (front @ [m])" and "m \<notin> set front" and "m \<in> set xs"
  shows "last xs = m \<and> m \<notin> set (butlast xs)"
proof -
  from assms(1) obtain xs1 xs2 where xs: "xs = xs1 @ xs2" and s1: "subseq xs1 front"
    and s2: "subseq xs2 [m]" by (rule subseq_appendE)
  have n1: "m \<notin> set xs1" using subseq_set [OF s1] assms(2) by blast
  then have "m \<in> set xs2" using assms(3) xs by simp
  moreover have "xs2 = [] \<or> xs2 = [m]" using s2 by (cases xs2) (auto split: if_splits)
  ultimately have "xs2 = [m]" by auto
  then show ?thesis using xs n1 by simp
qed

lemma kill_one_live:
  "kill_one w s = (w', n, e) \<Longrightarrow> x \<noteq> s \<Longrightarrow> (x \<in> set (live w') \<longleftrightarrow> x \<in> set (live w))"
  by (auto dest!: kill_one_cases)

lemma kill_others_live:
  "x \<notin> set ss \<Longrightarrow> (x \<in> set (live (fst (kill_others c w ss))) \<longleftrightarrow> x \<in> set (live w))"
proof (induction ss arbitrary: w)
  case Nil
  then show ?case by simp
next
  case (Cons s ss)
  show ?case
  proof (cases "s = DeaconSessionName c \<or> s = MayorSessionName c")
    case True
    then show ?thesis using Cons by auto
  next
    case False
    obtain w1 n1 e1 where k1: "kill_one w s = (w1, n1, e1)" by (metis prod_cases3)
    obtain w2 n2 e2 where k2: "kill_others c w1 ss = (w2, n2, e2)" by (metis prod_cases3)
    have "x \<in> set (live w1) \<longleftrightarrow> x \<in> set (live w)" using kill_one_live [OF k1] Cons.prems by auto
    moreover have "x \<in> set (live w2) \<longleftrightarrow> x \<in> set (live w1)" using Cons.IH [of w1] k2 Cons.prems by simp
    ultimately show ?thesis using False k1 k2 by simp
  qed
qed

lemma killSessionsInOrder_live:
  assumes "x \<notin> set ss"
  shows "x \<in> set (live (fst (killSessionsInOrder c w ss))) \<longleftrightarrow> x \<in> set (live w)"
proof -
  obtain w1 n1 e1 w2 n2 e2 w3 n3 e3 where
    k1: "(if inList ss (DeaconSessionName c) then kill_one w (DeaconSessionName c) else (w, 0, [])) = (w1, n1, e1)" and
    k2: "kill_others c w1 ss = (w2, n2, e2)" and
    k3: "(if inList ss (MayorSessionName c) then kill_one w2 (MayorSessionName c) else (w2, 0, [])) = (w3, n3, e3)" and
    k: "killSessionsInOrder c w ss = (w3, n1 + n2 + n3, e1 @ e2 @ e3)"
    by (rule killSessionsInOrder_split)
  have a: "x \<in> set (live w1) \<longleftrightarrow> x \<in> set (live w)"
    using k1 assms kill_one_live [of w "DeaconSessionName c" w1 n1 e1 x]
    by (auto simp: inList_set split: if_splits)
  have b: "x \<in> set (live w2) \<longleftrightarrow> x \<in> set (live w1)"
    using kill_others_live [OF assms, of c w1] k2 by simp
  have c: "x \<in> set (live w3) \<longleftrightarrow> x \<in> set (live w2)"
    using k3 assms kill_one_live [of w2 "MayorSessionName c" w3 n3 e3 x]
    by (auto simp: inList_set split: if_splits)
  show ?thesis using a b c k by simp
qed

lemma shutdown_world:
  "fst (runGracefulShutdown c f w ss root) = fst (killSessionsInOrder c w ss)"
  "fst (runImmediateShutdown c f w ss root) = fst (killSessionsInOrder c w ss)"
  by (simp_all add: runGracefulShutdown_def runImmediateShutdown_def split: prod.splits)

lemma ListSessions_live: "ListSessions w = Inr sessions \<Longrightarrow> sessions = live w"
  by (simp add: ListSessions_def split: option.splits)


lemma kill_order_first:
  assumes "m \<noteq> d"
    and "ks = (if d \<in> set ss then [d] else []) @ filter (\<lambda>s. s \<noteq> d \<and> s \<noteq> m) ss @
              (if m \<in> set ss then [m] else [])"
    and "subseq xs ks" and "d \<in> set xs"
  shows "hd xs = d \<and> d \<notin> set (tl xs)"
proof -
  have "d \<in> set ks" using subseq_set [OF assms(3)] assms(4) by blast
  then have "d \<in> set ss" using assms(1,2) by (auto split: if_splits)
  then have "ks = d # (filter (\<lambda>s. s \<noteq> d \<and> s \<noteq> m) ss @ (if m \<in> set ss then [m] else []))"
    using assms(2) by simp
  moreover have "d \<notin> set (filter (\<lambda>s. s \<noteq> d \<and> s \<noteq> m) ss @ (if m \<in> set ss then [m] else []))"
    using assms(1) by auto
  ultimately show ?thesis using subseq_first assms(3,4) by metis
qed

lemma kill_order_last:
  assumes "m \<noteq> d"
    and "ks = (if d \<in> set ss then [d] else []) @ filter (\<lambda>s. s \<noteq> d \<and> s \<noteq> m) ss @
              (if m \<in> set ss then [m] else [])"
    and "subseq xs ks" and "m \<in> set xs"
  shows "last xs = m \<and> m \<notin> set (butlast xs)"
proof -
  have "m \<in> set ks" using subseq_set [OF assms(3)] assms(4) by blast
  then have "m \<in> set ss" using assms(1,2) by (auto split: if_splits)
  then have "ks = ((if d \<in> set ss then [d] else []) @ filter (\<lambda>s. s \<noteq> d \<and> s \<noteq> m) ss) @ [m]"
    using assms(2) by simp
  moreover have "m \<notin> set ((if d \<in> set ss then [d] else []) @ filter (\<lambda>s. s \<noteq> d \<and> s \<noteq> m) ss)"
    using assms(1) by auto
  ultimately show ?thesis using subseq_last assms(3,4) by metis
qed

lemma kill_order_set:
  "set ((if d \<in> set ss then [d] else []) @ filter (\<lambda>s. s \<noteq> d \<and> s \<noteq> m) ss @
              (if m \<in> set ss then [m] else [])) = set ss"
  by auto

lemma shown_no_kills:
  "kill_calls ([Print (SessionsToStop a)] @ (if cnd then [Print (SessionsPreserved b)] else []) @
      (if cnd2 then [Print ProceedPrompt, Call_ReadString] else []) @ evs) = kill_calls evs"
  "stopped_sessions ([Print (SessionsToStop a)] @ (if cnd then [Print (SessionsPreserved b)] else []) @
      (if cnd2 then [Print ProceedPrompt, Call_ReadString] else []) @ evs) = stopped_sessions evs"
  by (simp_all add: kill_calls_Cons stopped_sessions_Cons)

text \<open>The kills of a whole shutdown: none, or those of \<open>killSessionsInOrder\<close> on the selection.\<close>

lemma runShutdown_kills:
  "(kill_calls (snd (snd (runShutdown c f w))) = [] \<and>
    stopped_sessions (snd (snd (runShutdown c f w))) = [] \<and>
    fst (snd (runShutdown c f w)) = w \<and>
    filter reclamation_event (snd (snd (runShutdown c f w))) = []) \<or>
   (list_sessions_err w = None \<and> fst (categorizeSessions c f (live w)) \<noteq> [] \<and>
    (shutdownYes f \<or> TrimSpace c (ToLower c (stdin_line w)) = ''y''
         \<or> TrimSpace c (ToLower c (stdin_line w)) = ''yes'') \<and>
    kill_calls (snd (snd (runShutdown c f w))) =
      kill_calls (snd (snd (killSessionsInOrder c w (fst (categorizeSessions c f (live w)))))) \<and>
    stopped_sessions (snd (snd (runShutdown c f w))) =
      stopped_sessions (snd (snd (killSessionsInOrder c w (fst (categorizeSessions c f (live w)))))) \<and>
    fst (snd (runShutdown c f w)) = fst (killSessionsInOrder c w (fst (categorizeSessions c f (live w)))))"
proof (cases rule: runShutdown_cases [of w c f])
  case (list_failed err)
  then show ?thesis by (simp add: kill_calls_Cons stopped_sessions_Cons)
next
  case (not_running sessions)
  then show ?thesis by (simp add: kill_calls_Cons stopped_sessions_Cons reclamation_event_def)
next
  case (cancelled sessions)
  then show ?thesis by (simp add: kill_calls_Cons stopped_sessions_Cons reclamation_event_def)
next
  case (proceeded sessions w' evs)
  have s: "sessions = live w" using proceeded(1) by (rule ListSessions_live)
  have le: "list_sessions_err w = None" using proceeded(1) by (simp add: ListSessions_def split: option.splits)
  let ?sel = "fst (categorizeSessions c f (live w))"
  have k: "kill_calls evs = kill_calls (snd (snd (killSessionsInOrder c w ?sel)))"
    and st: "stopped_sessions evs = stopped_sessions (snd (snd (killSessionsInOrder c w ?sel)))"
    and w': "w' = fst (killSessionsInOrder c w ?sel)"
    using proceeded(4) graceful_kills [of c f w ?sel "FindFromCwd w"]
      immediate_kills [of c f w ?sel "FindFromCwd w"]
      shutdown_world [of c f w ?sel "FindFromCwd w"] unfolding s
    by (auto split: if_splits)
  show ?thesis
    using proceeded(2,3) le k st w' unfolding proceeded(5) s
    by (simp only: snd_conv fst_conv shown_no_kills) simp
qed

lemma town_names [simp]:
  "MayorSessionName town = ''gt-mayor''" "DeaconSessionName town = ''gt-deacon''"
  by (simp_all add: town_def)

section \<open>Shutdown: order of termination\<close>

text \<open>
  C1. In every run of \<open>gt shutdown\<close> the sessions are killed in the race-safe order,
  whatever the order in which they were listed. Either no session is killed at all, or
  \<open>KillSession\<close> is called on the Deacon (if selected), then on every other selected
  session, then on the Mayor (if selected). So a kill of the Deacon is the first kill and
  the only one of the Deacon, and a kill of the Mayor is the last kill and the only one of
  the Mayor. The same holds of the kills that succeeded (the sessions reported stopped).
  The two reserved names are different names.
\<close>

theorem shutdown_kill_order:
  assumes "MayorSessionName c \<noteq> DeaconSessionName c"
  shows "(kill_calls (snd (snd (runShutdown c f w))) = [] \<or>
          kill_calls (snd (snd (runShutdown c f w))) =
            (if DeaconSessionName c \<in> set (fst (categorizeSessions c f (live w)))
             then [DeaconSessionName c] else []) @
            filter (\<lambda>s. s \<noteq> DeaconSessionName c \<and> s \<noteq> MayorSessionName c)
              (fst (categorizeSessions c f (live w))) @
            (if MayorSessionName c \<in> set (fst (categorizeSessions c f (live w)))
             then [MayorSessionName c] else [])) \<and>
         (DeaconSessionName c \<in> set (kill_calls (snd (snd (runShutdown c f w)))) \<longrightarrow>
            hd (kill_calls (snd (snd (runShutdown c f w)))) = DeaconSessionName c \<and>
            DeaconSessionName c \<notin> set (tl (kill_calls (snd (snd (runShutdown c f w)))))) \<and>
         (MayorSessionName c \<in> set (kill_calls (snd (snd (runShutdown c f w)))) \<longrightarrow>
            last (kill_calls (snd (snd (runShutdown c f w)))) = MayorSessionName c \<and>
            MayorSessionName c \<notin> set (butlast (kill_calls (snd (snd (runShutdown c f w)))))) \<and>
         (DeaconSessionName c \<in> set (stopped_sessions (snd (snd (runShutdown c f w)))) \<longrightarrow>
            hd (stopped_sessions (snd (snd (runShutdown c f w)))) = DeaconSessionName c \<and>
            DeaconSessionName c \<notin> set (tl (stopped_sessions (snd (snd (runShutdown c f w)))))) \<and>
         (MayorSessionName c \<in> set (stopped_sessions (snd (snd (runShutdown c f w)))) \<longrightarrow>
            last (stopped_sessions (snd (snd (runShutdown c f w)))) = MayorSessionName c \<and>
            MayorSessionName c \<notin> set (butlast (stopped_sessions (snd (snd (runShutdown c f w))))))"
proof -
  let ?evs = "snd (snd (runShutdown c f w))"
  let ?sel = "fst (categorizeSessions c f (live w))"
  let ?d = "DeaconSessionName c" and ?m = "MayorSessionName c"
  let ?order = "(if ?d \<in> set ?sel then [?d] else []) @ filter (\<lambda>s. s \<noteq> ?d \<and> s \<noteq> ?m) ?sel @
                (if ?m \<in> set ?sel then [?m] else [])"
  from runShutdown_kills [of c f w]
  consider (none) "kill_calls ?evs = []" "stopped_sessions ?evs = []"
    | (killed) "kill_calls ?evs = kill_calls (snd (snd (killSessionsInOrder c w ?sel)))"
        "stopped_sessions ?evs = stopped_sessions (snd (snd (killSessionsInOrder c w ?sel)))"
    by blast
  then show ?thesis
  proof cases
    case none
    then show ?thesis by simp
  next
    case killed
    have ks: "kill_calls ?evs = ?order"
      using killed(1) kill_calls_killSessionsInOrder [of c w ?sel] by simp
    have sub: "subseq (stopped_sessions ?evs) (kill_calls ?evs)"
      using killed killSessionsInOrder_subseq [of c w ?sel] by simp
    have self: "subseq (kill_calls ?evs) (kill_calls ?evs)" by simp
    note first = kill_order_first [OF assms ks]
    note last = kill_order_last [OF assms ks]
    show ?thesis using ks first [OF self] last [OF self] first [OF sub] last [OF sub] by blast
  qed
qed

theorem shutdown_kill_order_witness:
  "MayorSessionName town \<noteq> DeaconSessionName town \<and>
   kill_calls (snd (snd (runShutdown town (default_flags\<lparr>shutdownYes := True\<rparr>)
      (the_world [''gt-rig-Toast'', ''gt-mayor'', ''vim'', ''gt-deacon'', ''gt-rig-crew-joe''] [] [])))) =
     [''gt-deacon'', ''gt-rig-Toast'', ''gt-mayor'']"
proof -
  have h: "MayorSessionName town \<noteq> DeaconSessionName town" by simp
  have sel: "fst (categorizeSessions town (default_flags\<lparr>shutdownYes := True\<rparr>)
      (live (the_world [''gt-rig-Toast'', ''gt-mayor'', ''vim'', ''gt-deacon'', ''gt-rig-crew-joe''] [] [])))
      = [''gt-rig-Toast'', ''gt-mayor'', ''gt-deacon'']"
    by (simp add: categorizeSessions_def the_world_def default_flags_def HasPrefix_def isCrew_def)
  have run: "kill_calls (snd (snd (runShutdown town (default_flags\<lparr>shutdownYes := True\<rparr>)
      (the_world [''gt-rig-Toast'', ''gt-mayor'', ''vim'', ''gt-deacon'', ''gt-rig-crew-joe''] [] [])))) \<noteq> []"
    by code_simp
  show ?thesis
    using h run shutdown_kill_order [OF h, of "default_flags\<lparr>shutdownYes := True\<rparr>"
      "the_world [''gt-rig-Toast'', ''gt-mayor'', ''vim'', ''gt-deacon'', ''gt-rig-crew-joe''] [] []"]
    unfolding sel by simp
qed

section \<open>Shutdown: which sessions are selected\<close>

text \<open>
  C2, as the code has it. \<open>categorizeSessions\<close> looks at fleet sessions only (names
  starting with \<open>gt-\<close>) and keeps the order of the list. With \<open>--polecats-only\<close> (which
  wins over \<open>--all\<close>) it selects exactly the fleet sessions that are ephemeral workers in
  the spec's sense (no singleton, no crew session, no monitor-role session) and,
  beyond that, have at least three \<open>-\<close>-separated segments of which the third is not
  \<open>crew\<close>; every other fleet session is preserved. With \<open>--all\<close> alone it selects every
  fleet session and preserves none. With neither flag it selects every fleet session that
  is not a crew session and preserves the crew sessions.
\<close>

theorem categorizeSessions_policies:
  "categorizeSessions c f sessions =
     (if shutdownPolecatsOnly f then
        (filter (\<lambda>s. is_fleet s \<and> spec_ephemeral c s \<and>
                     length (Split s (CHR ''-'')) \<ge> 3 \<and> Split s (CHR ''-'') ! 2 \<noteq> ''crew'') sessions,
         filter (\<lambda>s. is_fleet s \<and> \<not> (spec_ephemeral c s \<and>
                     length (Split s (CHR ''-'')) \<ge> 3 \<and> Split s (CHR ''-'') ! 2 \<noteq> ''crew'')) sessions)
      else if shutdownAll f then (filter is_fleet sessions, [])
      else (filter (\<lambda>s. is_fleet s \<and> \<not> isCrew s) sessions,
            filter (\<lambda>s. is_fleet s \<and> isCrew s) sessions))"
proof (cases "shutdownPolecatsOnly f")
  case True
  have "isPolecat c s \<longleftrightarrow> spec_ephemeral c s \<and>
          length (Split s (CHR ''-'')) \<ge> 3 \<and> Split s (CHR ''-'') ! 2 \<noteq> ''crew''" for s
    by (rule isPolecat_iff)
  then show ?thesis
    unfolding categorizeSessions_filter [of c f sessions] is_fleet_def using True
    by (simp only: if_True)
next
  case False
  show ?thesis
  proof (cases "shutdownAll f")
    case True
    have "filter (\<lambda>s. HasPrefix s ''gt-'') sessions = filter is_fleet sessions"
      by (rule filter_cong) (simp_all add: is_fleet_def)
    then show ?thesis
      unfolding categorizeSessions_filter [of c f sessions] using True False by simp
  next
    case nall: False
    show ?thesis
      unfolding categorizeSessions_filter [of c f sessions] is_fleet_def using nall False by simp
  qed
qed

theorem categorizeSessions_policies_witness:
  "categorizeSessions town (default_flags\<lparr>shutdownPolecatsOnly := True\<rparr>)
     [''gt-mayor'', ''gt-deacon'', ''vim'', ''gt-boot'', ''gt-rig-crew'', ''gt-rig-crew-joe'',
      ''gt-rig-witness'', ''gt-rig-Toast''] =
   ([''gt-rig-Toast''],
    [''gt-mayor'', ''gt-deacon'', ''gt-boot'', ''gt-rig-crew'', ''gt-rig-crew-joe'', ''gt-rig-witness''])"
proof -
  let ?ss = "[''gt-mayor'', ''gt-deacon'', ''vim'', ''gt-boot'', ''gt-rig-crew'', ''gt-rig-crew-joe'',
      ''gt-rig-witness'', ''gt-rig-Toast'']"
  have po: "shutdownPolecatsOnly (default_flags\<lparr>shutdownPolecatsOnly := True\<rparr>)" by simp
  have e1: "filter (\<lambda>s. is_fleet s \<and> spec_ephemeral town s \<and>
                     length (Split s (CHR ''-'')) \<ge> 3 \<and> Split s (CHR ''-'') ! 2 \<noteq> ''crew'') ?ss
            = [''gt-rig-Toast'']"
    by code_simp
  have e2: "filter (\<lambda>s. is_fleet s \<and> \<not> (spec_ephemeral town s \<and>
                     length (Split s (CHR ''-'')) \<ge> 3 \<and> Split s (CHR ''-'') ! 2 \<noteq> ''crew'')) ?ss
            = [''gt-mayor'', ''gt-deacon'', ''gt-boot'', ''gt-rig-crew'', ''gt-rig-crew-joe'', ''gt-rig-witness'']"
    by code_simp
  show ?thesis
    unfolding categorizeSessions_policies [of town "default_flags\<lparr>shutdownPolecatsOnly := True\<rparr>" ?ss]
    using po e1 e2 by (simp only: if_True)
qed

text \<open>
  The claim as it is stated fails: \<open>gt-boot\<close> (two segments) and \<open>gt-rig-crew\<close> (third
  segment \<open>crew\<close>, but no \<open>-crew-\<close> in the name) are fleet sessions that are neither a
  singleton, nor a crew session, nor a monitor-role session, and \<open>--polecats-only\<close>
  preserves both.
\<close>

theorem polecats_only_counterexample:
  "is_fleet ''gt-boot'' \<and> spec_ephemeral town ''gt-boot'' \<and>
   is_fleet ''gt-rig-crew'' \<and> spec_ephemeral town ''gt-rig-crew'' \<and>
   categorizeSessions town (default_flags\<lparr>shutdownPolecatsOnly := True\<rparr>)
     [''gt-boot'', ''gt-rig-crew'', ''gt-rig-Toast''] =
   ([''gt-rig-Toast''], [''gt-boot'', ''gt-rig-crew''])"
  by code_simp

text \<open>
  C8. A session whose name does not start with \<open>gt-\<close> is in neither list of
  \<open>categorizeSessions\<close>, \<open>gt shutdown\<close> never calls \<open>KillSession\<close> on it, and it is live
  after the shutdown exactly if it was live before.
\<close>

theorem non_fleet_session_untouched:
  assumes "\<not> HasPrefix s ''gt-''"
  shows "s \<notin> set (fst (categorizeSessions c f sessions)) \<and>
         s \<notin> set (snd (categorizeSessions c f sessions)) \<and>
         s \<notin> set (kill_calls (snd (snd (runShutdown c f w)))) \<and>
         (s \<in> set (live (fst (snd (runShutdown c f w)))) \<longleftrightarrow> s \<in> set (live w))"
proof -
  have cat: "s \<notin> set (fst (categorizeSessions c f ss)) \<and> s \<notin> set (snd (categorizeSessions c f ss))" for ss
    using assms by (simp add: categorizeSessions_filter)
  let ?sel = "fst (categorizeSessions c f (live w))"
  have nsel: "s \<notin> set ?sel" using cat by blast
  have "s \<notin> set (kill_calls (snd (snd (killSessionsInOrder c w ?sel))))"
    using nsel unfolding kill_calls_killSessionsInOrder by (auto split: if_splits)
  moreover have "s \<in> set (live (fst (killSessionsInOrder c w ?sel))) \<longleftrightarrow> s \<in> set (live w)"
    by (rule killSessionsInOrder_live [OF nsel])
  ultimately have "s \<notin> set (kill_calls (snd (snd (runShutdown c f w)))) \<and>
         (s \<in> set (live (fst (snd (runShutdown c f w)))) \<longleftrightarrow> s \<in> set (live w))"
    using runShutdown_kills [of c f w] by auto
  then show ?thesis using cat by blast
qed

theorem non_fleet_session_untouched_witness:
  "\<not> HasPrefix ''vim'' ''gt-'' \<and>
   ''vim'' \<notin> set (kill_calls (snd (snd (runShutdown town (default_flags\<lparr>shutdownYes := True, shutdownAll := True\<rparr>)
      (the_world [''gt-rig-Toast'', ''gt-mayor'', ''vim'', ''gt-deacon'', ''gt-rig-crew-joe''] [] []))))) \<and>
   live (fst (snd (runShutdown town (default_flags\<lparr>shutdownYes := True, shutdownAll := True\<rparr>)
      (the_world [''gt-rig-Toast'', ''gt-mayor'', ''vim'', ''gt-deacon'', ''gt-rig-crew-joe''] [] [])))) = [''vim'']"
proof -
  have h: "\<not> HasPrefix ''vim'' ''gt-''" by (simp add: HasPrefix_def)
  have l: "live (fst (snd (runShutdown town (default_flags\<lparr>shutdownYes := True, shutdownAll := True\<rparr>)
      (the_world [''gt-rig-Toast'', ''gt-mayor'', ''vim'', ''gt-deacon'', ''gt-rig-crew-joe''] [] [])))) = [''vim'']"
    by code_simp
  show ?thesis
    using h l non_fleet_session_untouched [OF h, of town "default_flags\<lparr>shutdownYes := True, shutdownAll := True\<rparr>"
      "[]" "the_world [''gt-rig-Toast'', ''gt-mayor'', ''vim'', ''gt-deacon'', ''gt-rig-crew-joe''] [] []"]
    by simp
qed

section \<open>Shutdown: the runs that stop nothing\<close>

text \<open>
  C9. When the sessions could be listed and none of them is selected, \<open>gt shutdown\<close>
  prints that Gas Town was not running and returns no error; that line is its whole
  trace and the world is unchanged, so no session is killed and the reclamation pass does
  not run. The sample has a preserved crew session and a polecat the pass would have
  removed.
\<close>

theorem shutdown_nothing_to_stop:
  assumes "ListSessions w = Inr sessions" and "fst (categorizeSessions c f sessions) = []"
  shows "runShutdown c f w = (None, w, [Print WasNotRunning]) \<and>
         kill_calls (snd (snd (runShutdown c f w))) = [] \<and>
         filter reclamation_event (snd (snd (runShutdown c f w))) = []"
proof -
  obtain preserved where "categorizeSessions c f sessions = ([], preserved)"
    using assms(2) by (cases "categorizeSessions c f sessions") auto
  then have "runShutdown c f w = (None, w, [Print WasNotRunning])"
    using assms(1) by (simp add: runShutdown_def)
  then show ?thesis by (simp add: kill_calls_Cons reclamation_event_def)
qed

theorem shutdown_nothing_to_stop_witness:
  "ListSessions (the_world [''gt-rig-crew-joe'', ''vim''] ''y'' [toast]) = Inr [''gt-rig-crew-joe'', ''vim''] \<and>
   categorizeSessions town (default_flags\<lparr>shutdownYes := True\<rparr>) [''gt-rig-crew-joe'', ''vim''] = ([], [''gt-rig-crew-joe'']) \<and>
   remove_calls (cleanupPolecats (default_flags\<lparr>shutdownYes := True\<rparr>) (the_world [''gt-rig-crew-joe'', ''vim''] ''y'' [toast]))
     = [(''rig'', ''Toast'', True, False)] \<and>
   runShutdown town (default_flags\<lparr>shutdownYes := True\<rparr>) (the_world [''gt-rig-crew-joe'', ''vim''] ''y'' [toast]) =
     (None, the_world [''gt-rig-crew-joe'', ''vim''] ''y'' [toast], [Print WasNotRunning])"
proof -
  have a: "ListSessions (the_world [''gt-rig-crew-joe'', ''vim''] ''y'' [toast]) = Inr [''gt-rig-crew-joe'', ''vim'']"
    by (simp add: ListSessions_def the_world_def)
  have b: "categorizeSessions town (default_flags\<lparr>shutdownYes := True\<rparr>) [''gt-rig-crew-joe'', ''vim''] = ([], [''gt-rig-crew-joe''])"
    by code_simp
  have b': "fst (categorizeSessions town (default_flags\<lparr>shutdownYes := True\<rparr>) [''gt-rig-crew-joe'', ''vim'']) = []"
    using b by simp
  have c: "remove_calls (cleanupPolecats (default_flags\<lparr>shutdownYes := True\<rparr>) (the_world [''gt-rig-crew-joe'', ''vim''] ''y'' [toast]))
     = [(''rig'', ''Toast'', True, False)]"
    by code_simp
  show ?thesis using a b c shutdown_nothing_to_stop [OF a b'] by simp
qed

text \<open>
  C10. Without \<open>--yes\<close>, an answer that is neither \<open>y\<close> nor \<open>yes\<close> once lower-cased and
  trimmed leaves the world as it was: no session is killed and nothing of the reclamation
  pass happens. If the sessions could be listed the command returns no error, and if
  some session was selected its trace is the lists of sessions, the prompt, the read of
  the answer and \<open>Shutdown cancelled.\<close>
\<close>

theorem shutdown_cancelled:
  assumes "\<not> shutdownYes f"
    and "TrimSpace c (ToLower c (stdin_line w)) \<noteq> ''y''"
    and "TrimSpace c (ToLower c (stdin_line w)) \<noteq> ''yes''"
  shows "kill_calls (snd (snd (runShutdown c f w))) = [] \<and>
         filter reclamation_event (snd (snd (runShutdown c f w))) = [] \<and>
         fst (snd (runShutdown c f w)) = w \<and>
         (list_sessions_err w = None \<longrightarrow> fst (runShutdown c f w) = None) \<and>
         (list_sessions_err w = None \<and> fst (categorizeSessions c f (live w)) \<noteq> [] \<longrightarrow>
            snd (snd (runShutdown c f w)) =
              [Print (SessionsToStop (fst (categorizeSessions c f (live w))))] @
              (if length (snd (categorizeSessions c f (live w))) > 0 \<and> \<not> shutdownAll f
               then [Print (SessionsPreserved (snd (categorizeSessions c f (live w))))] else []) @
              [Print ProceedPrompt, Call_ReadString, Print ShutdownCancelled])"
proof (cases rule: runShutdown_cases [of w c f])
  case (list_failed err)
  then show ?thesis by (simp add: kill_calls_Cons ListSessions_def split: option.splits)
next
  case (not_running sessions)
  then show ?thesis using ListSessions_live [OF not_running(1)]
    by (simp add: kill_calls_Cons reclamation_event_def)
next
  case (cancelled sessions)
  then show ?thesis using ListSessions_live [OF cancelled(1)]
    by (simp add: kill_calls_Cons reclamation_event_def)
next
  case (proceeded sessions w' evs)
  then show ?thesis using assms by simp
qed

theorem shutdown_cancelled_witness:
  "\<not> shutdownYes default_flags \<and>
   TrimSpace town (ToLower town (stdin_line (the_world [''gt-mayor'', ''gt-rig-Toast'', ''gt-rig-crew-joe''] '' Yep '' [toast]))) = ''yep'' \<and>
   runShutdown town default_flags (the_world [''gt-mayor'', ''gt-rig-Toast'', ''gt-rig-crew-joe''] '' Yep '' [toast]) =
     (None, the_world [''gt-mayor'', ''gt-rig-Toast'', ''gt-rig-crew-joe''] '' Yep '' [toast],
      [Print (SessionsToStop [''gt-mayor'', ''gt-rig-Toast'']), Print (SessionsPreserved [''gt-rig-crew-joe'']),
       Print ProceedPrompt, Call_ReadString, Print ShutdownCancelled])"
proof -
  let ?w = "the_world [''gt-mayor'', ''gt-rig-Toast'', ''gt-rig-crew-joe''] '' Yep '' [toast]"
  have a: "\<not> shutdownYes default_flags" by (simp add: default_flags_def)
  have r: "TrimSpace town (ToLower town (stdin_line ?w)) = ''yep''" by code_simp
  have b: "TrimSpace town (ToLower town (stdin_line ?w)) \<noteq> ''y''"
    and c: "TrimSpace town (ToLower town (stdin_line ?w)) \<noteq> ''yes''" unfolding r by simp_all
  have cat: "categorizeSessions town default_flags (live ?w) = ([''gt-mayor'', ''gt-rig-Toast''], [''gt-rig-crew-joe''])"
    by code_simp
  have le: "list_sessions_err ?w = None" by (simp add: the_world_def)
  have res: "runShutdown town default_flags ?w = (fst (runShutdown town default_flags ?w),
      fst (snd (runShutdown town default_flags ?w)), snd (snd (runShutdown town default_flags ?w)))" by simp
  show ?thesis
    using a r shutdown_cancelled [OF a b c] le
    unfolding cat by (subst res) (simp add: default_flags_def)
qed

section \<open>Reclamation: what is removed and what is kept\<close>

lemma is_clean_iff: "is_clean p \<longleftrightarrow> \<not> check_failed p \<and> \<not> has_uncommitted p"
  by (simp add: is_clean_def check_failed_def has_uncommitted_def split: sum.splits)

lemma sample_visited:
  "visited [the_rig ps] = map (Pair (the_rig ps)) ps"
  by (simp add: visited_def the_rig_def)

lemma sample_world [simp]:
  "load_rigs_config_err (the_world ss a ps) = None"
  "discover_rigs (the_world ss a ps) = Inr [the_rig ps]"
  "live (the_world ss a ps) = ss"
  "list_sessions_err (the_world ss a ps) = None"
  "stdin_line (the_world ss a ps) = a"
  by (simp_all add: the_world_def)

text \<open>
  C3. Take a polecat the reclamation pass reaches (the rigs configuration loads, the rigs
  are discovered, its rig lists it) whose working copy has uncommitted changes or whose
  check fails. Without \<open>--nuclear\<close> the pass calls \<open>RemoveWithOptions\<close> exactly on the
  clean polecats, so not on this one (polecats being told apart by rig and name); the
  polecat is counted in the skipped total, which counts every polecat that is not clean
  and every clean one whose removal fails; and if it has uncommitted changes, its line
  \<open>rig/name (summary)\<close> is in the printed report. With \<open>--nuclear\<close> a polecat with
  uncommitted changes is warned about with its summary and \<open>RemoveWithOptions\<close> is
  called on it.
\<close>

theorem reclamation_protects_uncommitted:
  assumes "load_rigs_config_err w = None" and "discover_rigs w = Inr rigs"
    and "(r, p) \<in> set (visited rigs)" and "check_failed p \<or> has_uncommitted p"
  shows
   "(\<not> shutdownNuclear f \<longrightarrow>
       remove_calls (cleanupPolecats f w) =
         map (\<lambda>(r, p). (RigName r, Name p, True, False))
           (filter (\<lambda>(r, p). is_clean p) (visited rigs)) \<and>
       (distinct (map (\<lambda>(r, p). (RigName r, Name p)) (visited rigs)) \<longrightarrow>
          (\<forall>force nuclear. (RigName r, Name p, force, nuclear) \<notin> set (remove_calls (cleanupPolecats f w)))) \<and>
       skipped_total (cleanupPolecats f w) =
         length (filter (\<lambda>(r, p). \<not> is_clean p \<or> \<not> removal_succeeds f p) (visited rigs)) \<and>
       1 \<le> skipped_total (cleanupPolecats f w) \<and>
       (has_uncommitted p \<longrightarrow>
          report_entry r p \<in> set (uncommitted_report (cleanupPolecats f w)))) \<and>
    (shutdownNuclear f \<and> has_uncommitted p \<longrightarrow>
       (RigName r, Name p, change_summary p) \<in> set (nuclear_warnings (cleanupPolecats f w)) \<and>
       (RigName r, Name p, True, True) \<in> set (remove_calls (cleanupPolecats f w)))"
proof -
  note pass = cleanupPolecats_pass [OF assms(1,2), of f]
  have dirty: "\<not> is_clean p" using assms(4) by (simp add: is_clean_iff)
  show ?thesis
  proof (cases "shutdownNuclear f")
    case True
    have "has_uncommitted p \<Longrightarrow> (RigName r, Name p, change_summary p) \<in> set (nuclear_warnings (cleanupPolecats f w))"
      unfolding pass(6) using assms(3) True by force
    moreover have "(RigName r, Name p, True, True) \<in> set (remove_calls (cleanupPolecats f w))"
      unfolding pass(4) using assms(3) True by (force simp: removal_attempted_def)
    ultimately show ?thesis using True by blast
  next
    case False
    have attempted: "(\<lambda>(r, p). removal_attempted f p) = (\<lambda>(r, p). is_clean p)"
      using False by (simp add: removal_attempted_def)
    have recl: "(\<lambda>(r, p). \<not> reclaimed f p) = (\<lambda>(r, p). \<not> is_clean p \<or> \<not> removal_succeeds f p)"
      using False by (simp add: reclaimed_def removal_attempted_def)
    have rc: "remove_calls (cleanupPolecats f w) =
         map (\<lambda>(r, p). (RigName r, Name p, True, False)) (filter (\<lambda>(r, p). is_clean p) (visited rigs))"
      unfolding pass(4) attempted using False by simp
    have sk: "skipped_total (cleanupPolecats f w) =
         length (filter (\<lambda>(r, p). \<not> is_clean p \<or> \<not> removal_succeeds f p) (visited rigs))"
      unfolding pass(2) recl by simp
    have "(r, p) \<in> set (filter (\<lambda>(r, p). \<not> is_clean p \<or> \<not> removal_succeeds f p) (visited rigs))"
      using assms(3) dirty by simp
    then have "0 < length (filter (\<lambda>(r, p). \<not> is_clean p \<or> \<not> removal_succeeds f p) (visited rigs))"
      by (rule length_pos_if_in_set)
    then have one: "1 \<le> skipped_total (cleanupPolecats f w)"
      unfolding sk by (simp only: One_nat_def Suc_le_eq)
    have rep: "has_uncommitted p \<Longrightarrow> report_entry r p \<in> set (uncommitted_report (cleanupPolecats f w))"
      unfolding pass(3) using assms(3) False by force
    have none: "(RigName r, Name p, force, nuclear) \<notin> set (remove_calls (cleanupPolecats f w))"
      if d: "distinct (map (\<lambda>(r, p). (RigName r, Name p)) (visited rigs))" for force nuclear
    proof
      assume "(RigName r, Name p, force, nuclear) \<in> set (remove_calls (cleanupPolecats f w))"
      then obtain r' p' where in': "(r', p') \<in> set (visited rigs)" and c': "is_clean p'"
        and eq: "RigName r' = RigName r" "Name p' = Name p"
        unfolding rc by auto
      have "inj_on (\<lambda>(r, p). (RigName r, Name p)) (set (visited rigs))"
        using d by (simp add: distinct_map)
      moreover have "(\<lambda>(r, p). (RigName r, Name p)) (r', p') = (\<lambda>(r, p). (RigName r, Name p)) (r, p)"
        using eq by simp
      ultimately have "(r', p') = (r, p)" using in' assms(3) by (rule inj_onD)
      then show False using c' dirty by simp
    qed
    show ?thesis using False rc sk one rep none by blast
  qed
qed

theorem reclamation_protects_uncommitted_witness:
  "load_rigs_config_err (the_world [] [] [toast, nux, furiosa]) = None \<and>
   discover_rigs (the_world [] [] [toast, nux, furiosa]) = Inr [the_rig [toast, nux, furiosa]] \<and>
   (the_rig [toast, nux, furiosa], nux) \<in> set (visited [the_rig [toast, nux, furiosa]]) \<and>
   has_uncommitted nux \<and> \<not> shutdownNuclear default_flags \<and>
   remove_calls (cleanupPolecats default_flags (the_world [] [] [toast, nux, furiosa])) =
     [(''rig'', ''Toast'', True, False)] \<and>
   report_entry (the_rig [toast, nux, furiosa]) nux
     \<in> set (uncommitted_report (cleanupPolecats default_flags (the_world [] [] [toast, nux, furiosa]))) \<and>
   uncommitted_report (cleanupPolecats default_flags (the_world [] [] [toast, nux, furiosa])) =
     [''rig/nux (2 modified)''] \<and>
   skipped_total (cleanupPolecats default_flags (the_world [] [] [toast, nux, furiosa])) = 2 \<and>
   (''rig'', ''nux'', ''2 modified'')
     \<in> set (nuclear_warnings (cleanupPolecats (default_flags\<lparr>shutdownNuclear := True\<rparr>)
                (the_world [] [] [toast, nux, furiosa])))"
proof -
  let ?w = "the_world [] [] [toast, nux, furiosa]"
  let ?r = "the_rig [toast, nux, furiosa]"
  have h1: "load_rigs_config_err ?w = None" and h2: "discover_rigs ?w = Inr [?r]" by simp_all
  have h3: "(?r, nux) \<in> set (visited [?r])" by (simp add: sample_visited)
  have u: "has_uncommitted nux" by (simp add: has_uncommitted_def nux_def)
  then have h4: "check_failed nux \<or> has_uncommitted nux" by simp
  have n: "\<not> shutdownNuclear default_flags" by (simp add: default_flags_def)
  have y: "shutdownNuclear (default_flags\<lparr>shutdownNuclear := True\<rparr>)" by simp
  have names: "RigName ?r = ''rig''" "Name nux = ''nux''" "change_summary nux = ''2 modified''"
    by (simp_all add: the_rig_def nux_def change_summary_def)
  have rc: "remove_calls (cleanupPolecats default_flags ?w) = [(''rig'', ''Toast'', True, False)]"
    by code_simp
  have ur: "uncommitted_report (cleanupPolecats default_flags ?w) = [''rig/nux (2 modified)'']"
    by code_simp
  have sk: "skipped_total (cleanupPolecats default_flags ?w) = 2"
    by code_simp
  note plain = reclamation_protects_uncommitted [OF h1 h2 h3 h4, of default_flags]
  note forced = reclamation_protects_uncommitted [OF h1 h2 h3 h4, of "default_flags\<lparr>shutdownNuclear := True\<rparr>"]
  have a: "report_entry ?r nux \<in> set (uncommitted_report (cleanupPolecats default_flags ?w))"
    using plain n u by blast
  have b: "(''rig'', ''nux'', ''2 modified'')
     \<in> set (nuclear_warnings (cleanupPolecats (default_flags\<lparr>shutdownNuclear := True\<rparr>) ?w))"
    using forced y u unfolding names by blast
  show ?thesis using h1 h2 h3 u n rc ur sk a b by blast
qed

text \<open>
  C4, as the code has it. For a clean polecat the pass reaches, \<open>RemoveWithOptions\<close> is
  always called (with \<open>force\<close> and the \<open>--nuclear\<close> flag). If that call succeeds, the
  branch \<open>polecat/name\<close> is deleted, with force, in \<open>mayor/rig\<close> under the rig's path, and
  the polecat is counted in the cleaned total; if it fails, the polecat is counted in the
  skipped total. The cleaned total counts exactly the polecats whose removal was attempted
  and succeeded, the branches deleted are exactly theirs, and every polecat reached is
  counted once, as cleaned or as skipped. What \<open>DeleteBranch\<close> returns changes nothing.
\<close>

theorem reclamation_of_clean_polecat:
  assumes "load_rigs_config_err w = None" and "discover_rigs w = Inr rigs"
    and "(r, p) \<in> set (visited rigs)" and "is_clean p"
  shows
   "(RigName r, Name p, True, shutdownNuclear f) \<in> set (remove_calls (cleanupPolecats f w)) \<and>
    (removal_succeeds f p \<longrightarrow>
       (Join (RigPath r) [''mayor'', ''rig''], ''polecat/'' @ Name p, True)
          \<in> set (branch_deletes (cleanupPolecats f w)) \<and>
       1 \<le> cleaned_total (cleanupPolecats f w)) \<and>
    (\<not> removal_succeeds f p \<longrightarrow> 1 \<le> skipped_total (cleanupPolecats f w)) \<and>
    cleaned_total (cleanupPolecats f w) =
      length (filter (\<lambda>(r, p). (shutdownNuclear f \<or> is_clean p) \<and> removal_succeeds f p) (visited rigs)) \<and>
    branch_deletes (cleanupPolecats f w) =
      map (\<lambda>(r, p). (Join (RigPath r) [''mayor'', ''rig''], ''polecat/'' @ Name p, True))
        (filter (\<lambda>(r, p). (shutdownNuclear f \<or> is_clean p) \<and> removal_succeeds f p) (visited rigs)) \<and>
    cleaned_total (cleanupPolecats f w) + skipped_total (cleanupPolecats f w) = length (visited rigs) \<and>
    (\<forall>x st. cleanup_polecat f r (p\<lparr>DeleteBranchResult := x\<rparr>) st = cleanup_polecat f r p st)"
proof -
  note pass = cleanupPolecats_pass [OF assms(1,2), of f]
  have recl: "(\<lambda>(r, p). reclaimed f p) = (\<lambda>(r, p). (shutdownNuclear f \<or> is_clean p) \<and> removal_succeeds f p)"
    by (simp add: reclaimed_def removal_attempted_def)
  have a: "(RigName r, Name p, True, shutdownNuclear f) \<in> set (remove_calls (cleanupPolecats f w))"
    unfolding pass(4) using assms(3,4) by (force simp: removal_attempted_def)
  have b: "(Join (RigPath r) [''mayor'', ''rig''], ''polecat/'' @ Name p, True)
          \<in> set (branch_deletes (cleanupPolecats f w))" if "removal_succeeds f p"
    unfolding pass(5) using assms(3,4) that by (force simp: reclaimed_def removal_attempted_def)
  have c: "1 \<le> cleaned_total (cleanupPolecats f w)" if "removal_succeeds f p"
  proof -
    have "(r, p) \<in> set (filter (\<lambda>(r, p). reclaimed f p) (visited rigs))"
      using assms(3,4) that by (simp add: reclaimed_def removal_attempted_def)
    then have "0 < length (filter (\<lambda>(r, p). reclaimed f p) (visited rigs))"
      by (rule length_pos_if_in_set)
    then show ?thesis unfolding pass(1) by (simp only: One_nat_def Suc_le_eq)
  qed
  have d: "1 \<le> skipped_total (cleanupPolecats f w)" if "\<not> removal_succeeds f p"
  proof -
    have "(r, p) \<in> set (filter (\<lambda>(r, p). \<not> reclaimed f p) (visited rigs))"
      using assms(3) that by (simp add: reclaimed_def)
    then have "0 < length (filter (\<lambda>(r, p). \<not> reclaimed f p) (visited rigs))"
      by (rule length_pos_if_in_set)
    then show ?thesis unfolding pass(2) by (simp only: One_nat_def Suc_le_eq)
  qed
  have e: "cleaned_total (cleanupPolecats f w) + skipped_total (cleanupPolecats f w) = length (visited rigs)"
  proof -
    have eq: "(\<lambda>(r, p). \<not> reclaimed f p) = (\<lambda>x. \<not> (case x of (r, p) \<Rightarrow> reclaimed f p))"
      by (simp add: fun_eq_iff)
    have "length (filter (\<lambda>(r, p). reclaimed f p) (visited rigs)) +
          length (filter (\<lambda>(r, p). \<not> reclaimed f p) (visited rigs)) = length (visited rigs)"
      unfolding eq by (rule sum_length_filter_compl)
    then show ?thesis unfolding pass(1,2) .
  qed
  have g: "cleanup_polecat f r (p\<lparr>DeleteBranchResult := x\<rparr>) st = cleanup_polecat f r p st" for x st
  proof -
    have "remove_polecat f r (p\<lparr>DeleteBranchResult := x\<rparr>) st = remove_polecat f r p st"
      by (simp add: remove_polecat_def split: option.splits)
    then show ?thesis by (simp add: cleanup_polecat_def split: sum.splits)
  qed
  show ?thesis using a b c d e g pass(1,5) unfolding recl by blast
qed

theorem reclamation_of_clean_polecat_witness:
  "load_rigs_config_err (the_world [] [] [toast, nux, furiosa]) = None \<and>
   discover_rigs (the_world [] [] [toast, nux, furiosa]) = Inr [the_rig [toast, nux, furiosa]] \<and>
   (the_rig [toast, nux, furiosa], toast) \<in> set (visited [the_rig [toast, nux, furiosa]]) \<and>
   is_clean toast \<and> removal_succeeds default_flags toast \<and>
   (''rig'', ''Toast'', True, False)
     \<in> set (remove_calls (cleanupPolecats default_flags (the_world [] [] [toast, nux, furiosa]))) \<and>
   (Join ''/town/rig'' [''mayor'', ''rig''], ''polecat/Toast'', True)
     \<in> set (branch_deletes (cleanupPolecats default_flags (the_world [] [] [toast, nux, furiosa]))) \<and>
   cleaned_total (cleanupPolecats default_flags (the_world [] [] [toast, nux, furiosa])) = 1 \<and>
   skipped_total (cleanupPolecats default_flags (the_world [] [] [toast, nux, furiosa])) = 2"
proof -
  let ?w = "the_world [] [] [toast, nux, furiosa]"
  let ?r = "the_rig [toast, nux, furiosa]"
  have h1: "load_rigs_config_err ?w = None" and h2: "discover_rigs ?w = Inr [?r]" by simp_all
  have h3: "(?r, toast) \<in> set (visited [?r])" by (simp add: sample_visited)
  have h4: "is_clean toast" by (simp add: is_clean_def toast_def)
  have ok: "removal_succeeds default_flags toast" by (simp add: removal_succeeds_def toast_def)
  have names: "RigName ?r = ''rig''" "RigPath ?r = ''/town/rig''" "Name toast = ''Toast''"
    "shutdownNuclear default_flags = False"
    by (simp_all add: the_rig_def toast_def default_flags_def)
  have ct: "cleaned_total (cleanupPolecats default_flags ?w) = 1" by code_simp
  have sk: "skipped_total (cleanupPolecats default_flags ?w) = 2" by code_simp
  note t = reclamation_of_clean_polecat [OF h1 h2 h3 h4, of default_flags]
  have a: "(''rig'', ''Toast'', True, False) \<in> set (remove_calls (cleanupPolecats default_flags ?w))"
    using t unfolding names by blast
  have "(Join (RigPath ?r) [''mayor'', ''rig''], ''polecat/'' @ Name toast, True)
     \<in> set (branch_deletes (cleanupPolecats default_flags ?w))"
    using t ok by blast
  then have b: "(Join ''/town/rig'' [''mayor'', ''rig''], ''polecat/Toast'', True)
     \<in> set (branch_deletes (cleanupPolecats default_flags ?w))"
    by (simp only: names append.simps)
  show ?thesis using h1 h2 h3 h4 ok a b ct sk by blast
qed

text \<open>
  The claim as it is stated fails when the removal itself fails: this clean polecat is
  not removed, no branch is deleted, and it is counted as skipped, not as cleaned.
\<close>

theorem clean_polecat_counterexample:
  "is_clean stuck_toast \<and>
   visited [the_rig [stuck_toast]] = [(the_rig [stuck_toast], stuck_toast)] \<and>
   cleanupPolecats default_flags (the_world [] [] [stuck_toast]) =
     [Call_RemoveWithOptions ''rig'' ''Toast'' True False,
      Print (CleanupFailed ''rig'' ''Toast'' ''worktree is locked''),
      Print (Tally 0 1)]"
  by (simp add: is_clean_def stuck_toast_def visited_def the_rig_def the_world_def cleanupPolecats_def
        cleanup_polecat_def remove_polecat_def cleanup_summary_def default_flags_def)

end
